theory Spec2Isabelle
  imports Main "HOL-Library.Word"
begin

unbundle bit_operations_syntax

section \<open>Net/ParallelSocketAcceptor.h\<close>

subsection \<open>Data model\<close>

text \<open>
  A \<open>Socket\<close> is a handle on a \<open>SocketImpl\<close>; two handles are equal when they share the
  implementation object, so a socket is identified by a number. Objects held by pointer
  or reference (the acceptor itself, the \<open>SocketReactor\<close> it is registered with) are
  identified by their address.
\<close>

type_synonym socket = nat
type_synonym addr = nat

datatype error = AssertionViolation | NullPointer | OutOfRange | AcceptFailed

text \<open>
  \<open>Observer(*this, &ParallelSocketAcceptor::onAccept)\<close> is determined by the acceptor
  object; any other observer (those a service handler registers) is \<open>Other\<close>.
\<close>

datatype observer = OnAccept addr | Other nat

text \<open>A reactor of the pool is named by its index in \<open>_reactors\<close>, any other by its address.\<close>

datatype rref = External addr | Pool nat

datatype event =
    AcceptConnection socket
  | WakeUp rref
  | NewServiceHandler socket rref

record socket_reactor =
  rname :: string
  handlers :: "(socket \<times> observer) list"

text \<open>
  Modelled from the spec: the class \<open>SocketReactor\<close> (and \<open>ParallelSocketReactor\<close>
  deriving from it) is not part of the sources at hand. The spec describes it as a loop
  that "watches a set of sockets for readability; supports add/remove of a socket+callback
  pair, membership query, and an interrupt (wake) call". Adding is modelled without any
  check of its own, so that a duplicate registration is visible in the table; \<open>has\<close> is
  the query whether the reactor watches the socket for any observer.
\<close>

definition hasEventHandler :: "socket_reactor \<Rightarrow> socket \<Rightarrow> observer \<Rightarrow> bool" where
  "hasEventHandler r s ob = ((s, ob) \<in> set (handlers r))"

definition addEventHandler :: "socket_reactor \<Rightarrow> socket \<Rightarrow> observer \<Rightarrow> socket_reactor" where
  "addEventHandler r s ob = r\<lparr>handlers := handlers r @ [(s, ob)]\<rparr>"

definition removeEventHandler :: "socket_reactor \<Rightarrow> socket \<Rightarrow> observer \<Rightarrow> socket_reactor" where
  "removeEventHandler r s ob = r\<lparr>handlers := removeAll (s, ob) (handlers r)\<rparr>"

definition has :: "socket_reactor \<Rightarrow> socket \<Rightarrow> bool" where
  "has r s = (s \<in> fst ` set (handlers r))"

definition ParallelReactor :: "string \<Rightarrow> socket_reactor" where
  "ParallelReactor name = \<lparr>rname = name, handlers = []\<rparr>"

text \<open>
  The members of \<open>ParallelSocketAcceptor\<close>. \<open>_threads\<close> is \<open>unsigned\<close>, \<open>_next\<close> is
  \<open>std::size_t\<close>; \<open>_pReactor\<close> is a pointer that may be null; the vector owns its reactors.
\<close>

record acceptor =
  a_threadName :: string
  a_socket :: socket
  a_pReactor :: "addr option"
  a_threads :: "32 word"
  a_reactors :: "socket_reactor list"
  a_next :: "64 word"

text \<open>
  What the acceptor works on besides its own members: the reactors it reaches through
  \<open>_pReactor\<close>, the connections queued at the listening socket, and the sequence of
  calls made so far.
\<close>

record env =
  heap :: "addr \<Rightarrow> socket_reactor"
  pending :: "socket list"
  trace :: "event list"

subsection \<open>Construction\<close>

definition digit_char :: "nat \<Rightarrow> char" where
  "digit_char d = char_of (48 + d)"

function to_string :: "nat \<Rightarrow> string" where
  "to_string n = (if n < 10 then [digit_char n] else to_string (n div 10) @ [digit_char (n mod 10)])"
  by pat_completeness auto
termination
  by (relation "measure id") auto

declare to_string.simps [simp del]

text \<open>
  The loop of \<open>init\<close>:
  \<^verbatim>\<open>for (unsigned i = 0; i < _threads; ++i)
    _reactors.push_back(new ParallelReactor(_threadName + "#" + std::to_string(i)));\<close>
  The counter stays below \<open>_threads\<close>, so it never wraps.
\<close>

function init_loop :: "string \<Rightarrow> nat \<Rightarrow> nat \<Rightarrow> socket_reactor list \<Rightarrow> socket_reactor list" where
  "init_loop name i n rs =
     (if i < n then init_loop name (Suc i) n (rs @ [ParallelReactor (name @ ''#'' @ to_string i)])
      else rs)"
  by pat_completeness auto
termination
  by (relation "measure (\<lambda>(name, i, n, rs). n - i)") auto

declare init_loop.simps [simp del]

text \<open>
  Modelled from the spec: the macro \<open>poco_assert\<close> is not part of the sources at hand;
  a pool size of zero is "a configuration error", "fatal at construction", so a failed
  assertion is the error \<open>AssertionViolation\<close>.
\<close>

definition init :: "acceptor \<Rightarrow> error + acceptor" where
  "init a =
     (if \<not> (a_threads a > 0) then Inl AssertionViolation
      else Inr (a\<lparr>a_reactors := init_loop (a_threadName a) 0 (unat (a_threads a)) (a_reactors a)\<rparr>))"

text \<open>\<open>ParallelSocketAcceptor(ServerSocket&, unsigned threads, const std::string&)\<close>\<close>

definition new_acceptor :: "socket \<Rightarrow> 32 word \<Rightarrow> string \<Rightarrow> error + acceptor" where
  "new_acceptor sock n name =
     init \<lparr>a_threadName = name, a_socket = sock, a_pReactor = None, a_threads = n,
           a_reactors = [], a_next = 0\<rparr>"

text \<open>\<open>ParallelSocketAcceptor(ServerSocket&, SocketReactor&, unsigned threads, const std::string&)\<close>\<close>

definition new_acceptor_with :: "addr \<Rightarrow> socket \<Rightarrow> addr \<Rightarrow> 32 word \<Rightarrow> string \<Rightarrow> env
    \<Rightarrow> error + (acceptor \<times> env)" where
  "new_acceptor_with this sock r n name e =
     (case init \<lparr>a_threadName = name, a_socket = sock, a_pReactor = Some r, a_threads = n,
                 a_reactors = [], a_next = 0\<rparr> of
        Inl err \<Rightarrow> Inl err
      | Inr a \<Rightarrow>
          Inr (a, e\<lparr>heap := (heap e)(r := addEventHandler (heap e r) (a_socket a) (OnAccept this))\<rparr>))"

subsection \<open>Registration\<close>

text \<open>\<open>registerAcceptor(SocketReactor& reactor)\<close>\<close>

definition registerAcceptor :: "addr \<Rightarrow> addr \<Rightarrow> acceptor \<times> env \<Rightarrow> acceptor \<times> env" where
  "registerAcceptor this r = (\<lambda>(a, e).
     let a' = a\<lparr>a_pReactor := Some r\<rparr> in
     if \<not> hasEventHandler (heap e r) (a_socket a') (OnAccept this)
     then (a', e\<lparr>heap := (heap e)(r := addEventHandler (heap e r) (a_socket a') (OnAccept this))\<rparr>)
     else (a', e))"

text \<open>\<open>unregisterAcceptor()\<close>\<close>

definition unregisterAcceptor :: "addr \<Rightarrow> acceptor \<times> env \<Rightarrow> acceptor \<times> env" where
  "unregisterAcceptor this = (\<lambda>(a, e).
     case a_pReactor a of
       None \<Rightarrow> (a, e)
     | Some p \<Rightarrow>
         (a, e\<lparr>heap := (heap e)(p := removeEventHandler (heap e p) (a_socket a) (OnAccept this))\<rparr>))"

subsection \<open>Accepting\<close>

text \<open>
  \<open>reactor(const Socket&)\<close>: the first reactor of the pool that has the socket, as an
  index into \<open>_reactors\<close>, or the null pointer.
\<close>

fun reactor_loop :: "socket_reactor list \<Rightarrow> nat \<Rightarrow> socket \<Rightarrow> nat option" where
  "reactor_loop [] i s = None"
| "reactor_loop (r # rs) i s = (if has r s then Some i else reactor_loop rs (Suc i) s)"

definition reactor_for :: "acceptor \<Rightarrow> socket \<Rightarrow> nat option" where
  "reactor_for a s = reactor_loop (a_reactors a) 0 s"

text \<open>
  The round-robin branch of \<open>createServiceHandler\<close>:
  \<^verbatim>\<open>std::size_t next = _next++;
  if (_next == _reactors.size()) _next = 0;
  pReactor = _reactors[next];\<close>
  The increment is that of a 64-bit word. Indexing the vector out of range is undefined
  in the source and the error \<open>OutOfRange\<close> here.
\<close>

definition next_reactor :: "acceptor \<Rightarrow> error + (nat \<times> acceptor)" where
  "next_reactor a =
     (let next = a_next a;
          a1 = a\<lparr>a_next := a_next a + 1\<rparr>;
          a2 = (if unat (a_next a1) = length (a_reactors a1) then a1\<lparr>a_next := 0\<rparr> else a1)
      in if unat next < length (a_reactors a2) then Inr (unat next, a2) else Inl OutOfRange)"

text \<open>
  Modelled from the spec: \<open>SocketReactor::wakeUp\<close>, "an interrupt (wake) call that causes
  the loop to re-evaluate its watch set before its next blocking wait". It changes no
  table; the call is recorded.
\<close>

definition wakeUp :: "rref \<Rightarrow> env \<Rightarrow> env" where
  "wakeUp r e = e\<lparr>trace := trace e @ [WakeUp r]\<rparr>"

text \<open>
  \<open>createServiceHandler(StreamSocket& socket)\<close>:
  \<^verbatim>\<open>SocketReactor* pReactor = reactor(socket);
  if (!pReactor) { ... }
  pReactor->wakeUp();
  return new ServiceHandler(socket, *pReactor);\<close>
  \<open>ServiceHandler\<close> is a template parameter: its constructor receives the socket and the
  chosen reactor, and \<open>ctor\<close> is what it does to that reactor (a handler usually
  registers its socket there). The result is the handler, given by its socket and the
  index of its reactor.
\<close>

definition createServiceHandler ::
  "(socket \<Rightarrow> socket_reactor \<Rightarrow> socket_reactor) \<Rightarrow> socket \<Rightarrow> acceptor \<times> env
     \<Rightarrow> error + ((socket \<times> nat) \<times> acceptor \<times> env)" where
  "createServiceHandler ctor s = (\<lambda>(a, e).
     case (case reactor_for a s of
             Some i \<Rightarrow> Inr (i, a)
           | None \<Rightarrow> next_reactor a) of
       Inl err \<Rightarrow> Inl err
     | Inr (i, a') \<Rightarrow>
         let e1 = wakeUp (Pool i) e in
         Inr ((s, i),
              a'\<lparr>a_reactors := (a_reactors a')[i := ctor s (a_reactors a' ! i)]\<rparr>,
              e1\<lparr>trace := trace e1 @ [NewServiceHandler s (Pool i)]\<rparr>))"

text \<open>
  Modelled from the spec: \<open>ServerSocket::acceptConnection\<close>, "accept() -> socket | error".
  It takes the first connection queued at the listening socket and fails when there is
  none.
\<close>

definition acceptConnection :: "env \<Rightarrow> error + (socket \<times> env)" where
  "acceptConnection e =
     (case pending e of
        [] \<Rightarrow> Inl AcceptFailed
      | sock # rest \<Rightarrow> Inr (sock, e\<lparr>pending := rest, trace := trace e @ [AcceptConnection sock]\<rparr>))"

text \<open>
  \<open>onAccept\<close>:
  \<^verbatim>\<open>StreamSocket sock = _socket.acceptConnection();
  _pReactor->wakeUp();
  createServiceHandler(sock);\<close>
  Calling through a null \<open>_pReactor\<close> is undefined in the source and the error
  \<open>NullPointer\<close> here.
\<close>

definition onAccept ::
  "(socket \<Rightarrow> socket_reactor \<Rightarrow> socket_reactor) \<Rightarrow> acceptor \<times> env \<Rightarrow> error + (acceptor \<times> env)" where
  "onAccept ctor = (\<lambda>(a, e).
     case acceptConnection e of
       Inl err \<Rightarrow> Inl err
     | Inr (sock, e1) \<Rightarrow>
         (case a_pReactor a of
            None \<Rightarrow> Inl NullPointer
          | Some p \<Rightarrow>
              (case createServiceHandler ctor sock (a, wakeUp (External p) e1) of
                 Inl err \<Rightarrow> Inl err
               | Inr (h, a', e') \<Rightarrow> Inr (a', e'))))"

subsection \<open>Sequences of accepted sockets\<close>

text \<open>
  \<open>createServiceHandler\<close> called for one accepted socket after the other; the result
  lists the handlers created, in order. The first failure ends the run.
\<close>

fun createServiceHandlers ::
  "(socket \<Rightarrow> socket_reactor \<Rightarrow> socket_reactor) \<Rightarrow> socket list \<Rightarrow> acceptor \<times> env
     \<Rightarrow> error + ((socket \<times> nat) list \<times> acceptor \<times> env)" where
  "createServiceHandlers ctor [] st = Inr ([], st)"
| "createServiceHandlers ctor (s # ss) st =
     (case createServiceHandler ctor s st of
        Inl err \<Rightarrow> Inl err
      | Inr (h, st') \<Rightarrow>
          (case createServiceHandlers ctor ss st' of
             Inl err \<Rightarrow> Inl err
           | Inr (hs, st'') \<Rightarrow> Inr (h # hs, st'')))"

text \<open>
  No socket of the sequence is registered with a reactor of the pool at the moment it is
  handed to \<open>createServiceHandler\<close>.
\<close>

fun no_affinity ::
  "(socket \<Rightarrow> socket_reactor \<Rightarrow> socket_reactor) \<Rightarrow> socket list \<Rightarrow> acceptor \<times> env \<Rightarrow> bool" where
  "no_affinity ctor [] st = True"
| "no_affinity ctor (s # ss) st =
     (reactor_for (fst st) s = None \<and>
      (case createServiceHandler ctor s st of
         Inl err \<Rightarrow> True
       | Inr (h, st') \<Rightarrow> no_affinity ctor ss st'))"

subsection \<open>Invariant and sample states\<close>

text \<open>
  The class invariant: the pool has as many reactors as \<open>_threads\<close> says, at least one,
  and \<open>_next\<close> is an index into it.
\<close>

definition invariant :: "acceptor \<Rightarrow> bool" where
  "invariant a = (0 < a_threads a \<and> length (a_reactors a) = unat (a_threads a)
     \<and> unat (a_next a) < length (a_reactors a))"

text \<open>
  Sample states: an environment with nothing queued and nothing registered; an
  acceptor with a pool of three reactors, registered with the reactor at address 2, as
  the second constructor leaves it; a handler constructor that registers its socket with
  the reactor it is given; the same pool after socket 42 has been registered with the
  third reactor and the cursor has moved to 1; the environment after the acceptor at
  address 1 has registered its accept handler.
\<close>

definition env0 :: env where
  "env0 = \<lparr>heap = (\<lambda>_. ParallelReactor ''main''), pending = [], trace = []\<rparr>"

definition pool3 :: acceptor where
  "pool3 = \<lparr>a_threadName = ''w'', a_socket = 7, a_pReactor = Some 2, a_threads = 3,
     a_reactors = [ParallelReactor ''w#0'', ParallelReactor ''w#1'', ParallelReactor ''w#2''],
     a_next = 0\<rparr>"

definition register_socket :: "socket \<Rightarrow> socket_reactor \<Rightarrow> socket_reactor" where
  "register_socket s r = addEventHandler r s (Other s)"

definition pinned3 :: acceptor where
  "pinned3 = pool3\<lparr>a_reactors := [ParallelReactor ''w#0'', ParallelReactor ''w#1'',
     register_socket 42 (ParallelReactor ''w#2'')], a_next := 1\<rparr>"

definition env1 :: env where
  "env1 = env0\<lparr>heap := (heap env0)(2 := addEventHandler (heap env0 2) 7 (OnAccept 1))\<rparr>"

text \<open>
  The acceptor and the environment after the acceptor, constructed on the reactor at
  address 2, has been registered with the reactor at address 3 as well: both tables hold
  the accept handler and \<open>_pReactor\<close> points at 3.
\<close>

definition moved3 :: acceptor where
  "moved3 = pool3\<lparr>a_pReactor := Some 3\<rparr>"

definition env2 :: env where
  "env2 = env1\<lparr>heap := (heap env1)(3 := addEventHandler (heap env1 3) 7 (OnAccept 1))\<rparr>"

section \<open>Net/WebSocket.h\<close>

text \<open>
  \<open>WebSocket.h\<close> declares the class; the bodies of its member functions (in
  \<open>WebSocket.cpp\<close> and \<open>WebSocketImpl.cpp\<close>) and the engines they call are not part of
  the sources at hand. The enumerations below are those of the header; the functions are
  modelled from the spec and from the documentation of their declarations.
\<close>

subsection \<open>Enumerations of the header\<close>

datatype Mode = WS_SERVER | WS_CLIENT

datatype ErrorCodes =
    WS_ERR_NO_HANDSHAKE
  | WS_ERR_HANDSHAKE_NO_VERSION
  | WS_ERR_HANDSHAKE_UNSUPPORTED_VERSION
  | WS_ERR_HANDSHAKE_NO_KEY
  | WS_ERR_HANDSHAKE_ACCEPT
  | WS_ERR_UNAUTHORIZED
  | WS_ERR_PAYLOAD_TOO_BIG
  | WS_ERR_INCOMPLETE_FRAME

type_synonym byte = "8 word"

definition FRAME_FLAG_FIN :: byte where "FRAME_FLAG_FIN = 0x80"
definition FRAME_FLAG_RSV1 :: byte where "FRAME_FLAG_RSV1 = 0x40"
definition FRAME_FLAG_RSV2 :: byte where "FRAME_FLAG_RSV2 = 0x20"
definition FRAME_FLAG_RSV3 :: byte where "FRAME_FLAG_RSV3 = 0x10"

definition FRAME_OP_CONT :: byte where "FRAME_OP_CONT = 0x00"
definition FRAME_OP_TEXT :: byte where "FRAME_OP_TEXT = 0x01"
definition FRAME_OP_BINARY :: byte where "FRAME_OP_BINARY = 0x02"
definition FRAME_OP_CLOSE :: byte where "FRAME_OP_CLOSE = 0x08"
definition FRAME_OP_PING :: byte where "FRAME_OP_PING = 0x09"
definition FRAME_OP_PONG :: byte where "FRAME_OP_PONG = 0x0a"
definition FRAME_OP_BITMASK :: byte where "FRAME_OP_BITMASK = 0x0f"

text \<open>
  \<open>FRAME_OP_SETRAW = 0x100\<close> lies outside the first header byte and is left out, as are
  the status codes of close frames, which no function modelled here reads.
\<close>

definition FRAME_TEXT :: byte where "FRAME_TEXT = FRAME_FLAG_FIN OR FRAME_OP_TEXT"
definition FRAME_BINARY :: byte where "FRAME_BINARY = FRAME_FLAG_FIN OR FRAME_OP_BINARY"

text \<open>\<open>WEBSOCKET_VERSION\<close>: "The WebSocket protocol version supported (13)".\<close>

definition WEBSOCKET_VERSION :: string where
  "WEBSOCKET_VERSION = ''13''"

subsection \<open>SHA-1 and Base64\<close>

text \<open>
  Modelled from the spec: the accept value is "base64(SHA-1(client key || a fixed 36-byte
  protocol GUID))"; the digest engine and the encoder the source calls are not part of
  the sources at hand. SHA-1 is written out as in FIPS 180-4: padding to blocks of 64
  bytes, the message schedule of 80 words, 80 rounds on five 32-bit words. A byte is a
  natural number below 256 here and a 32-bit word a natural number below \<open>2 ^ 32\<close>, with
  the wrap-around written out.
\<close>

definition to_bytes :: "string \<Rightarrow> nat list" where
  "to_bytes s = map of_char s"

definition add32 :: "nat \<Rightarrow> nat \<Rightarrow> nat" where
  "add32 a b = (a + b) mod 2 ^ 32"

definition rotl :: "nat \<Rightarrow> nat \<Rightarrow> nat" where
  "rotl n x = (x * 2 ^ n) mod 2 ^ 32 + x div 2 ^ (32 - n)"

definition not32 :: "nat \<Rightarrow> nat" where
  "not32 x = 4294967295 - x"

definition be64 :: "nat \<Rightarrow> nat list" where
  "be64 n = [n div 2 ^ 56 mod 256, n div 2 ^ 48 mod 256, n div 2 ^ 40 mod 256,
             n div 2 ^ 32 mod 256, n div 2 ^ 24 mod 256, n div 2 ^ 16 mod 256,
             n div 2 ^ 8 mod 256, n mod 256]"

definition sha1_pad :: "nat list \<Rightarrow> nat list" where
  "sha1_pad m = m @ [128] @ replicate ((119 - length m mod 64) mod 64) 0 @ be64 (8 * length m)"

function chunks :: "nat list \<Rightarrow> nat list list" where
  "chunks xs = (if length xs < 64 then [] else take 64 xs # chunks (drop 64 xs))"
  by pat_completeness auto
termination
  by (relation "measure length") auto

declare chunks.simps [simp del]

fun block_words :: "nat list \<Rightarrow> nat list" where
  "block_words (a # b # c # d # rest) = (a * 2 ^ 24 + b * 2 ^ 16 + c * 2 ^ 8 + d) # block_words rest"
| "block_words _ = []"

definition schedule_step :: "nat \<Rightarrow> nat list \<Rightarrow> nat list" where
  "schedule_step t w = w @ [rotl 1 (w ! (t - 3) XOR w ! (t - 8) XOR w ! (t - 14) XOR w ! (t - 16))]"

definition schedule :: "nat list \<Rightarrow> nat list" where
  "schedule w = fold schedule_step [16..<80] w"

definition sha1_f :: "nat \<Rightarrow> nat \<Rightarrow> nat \<Rightarrow> nat \<Rightarrow> nat" where
  "sha1_f t b c d =
     (if t < 20 then (b AND c) OR (not32 b AND d)
      else if t < 40 then b XOR c XOR d
      else if t < 60 then (b AND c) OR (b AND d) OR (c AND d)
      else b XOR c XOR d)"

definition sha1_k :: "nat \<Rightarrow> nat" where
  "sha1_k t =
     (if t < 20 then 0x5A827999
      else if t < 40 then 0x6ED9EBA1
      else if t < 60 then 0x8F1BBCDC
      else 0xCA62C1D6)"

type_synonym sha1_state = "nat \<times> nat \<times> nat \<times> nat \<times> nat"

fun sha1_rounds :: "nat \<Rightarrow> nat list \<Rightarrow> sha1_state \<Rightarrow> sha1_state" where
  "sha1_rounds t [] s = s"
| "sha1_rounds t (w # ws) (a, b, c, d, e) =
     sha1_rounds (t + 1) ws
       (add32 (add32 (add32 (add32 (rotl 5 a) (sha1_f t b c d)) e) (sha1_k t)) w,
        a, rotl 30 b, c, d)"

fun sha1_block :: "sha1_state \<Rightarrow> nat list \<Rightarrow> sha1_state" where
  "sha1_block (h0, h1, h2, h3, h4) blk =
     (case sha1_rounds 0 (schedule (block_words blk)) (h0, h1, h2, h3, h4) of
        (a, b, c, d, e) \<Rightarrow> (add32 h0 a, add32 h1 b, add32 h2 c, add32 h3 d, add32 h4 e))"

definition sha1_init :: sha1_state where
  "sha1_init = (0x67452301, 0xEFCDAB89, 0x98BADCFE, 0x10325476, 0xC3D2E1F0)"

definition be32 :: "nat \<Rightarrow> nat list" where
  "be32 w = [w div 2 ^ 24 mod 256, w div 2 ^ 16 mod 256, w div 2 ^ 8 mod 256, w mod 256]"

fun sha1_digest :: "sha1_state \<Rightarrow> nat list" where
  "sha1_digest (h0, h1, h2, h3, h4) = be32 h0 @ be32 h1 @ be32 h2 @ be32 h3 @ be32 h4"

definition sha1 :: "nat list \<Rightarrow> nat list" where
  "sha1 m = sha1_digest (foldl sha1_block sha1_init (chunks (sha1_pad m)))"

text \<open>
  Modelled from the spec: Base64 with the alphabet and the padding of RFC 4648: the
  encoder, for the accept value, and the decoder, for the check that the key is "a
  base64-encoded, 16-byte (post-decode)" value.
\<close>

definition base64_alphabet :: string where
  "base64_alphabet = ''ABCDEFGHIJKLMNOPQRSTUVWXYZabcdefghijklmnopqrstuvwxyz0123456789+/''"

definition b64 :: "nat \<Rightarrow> char" where
  "b64 n = base64_alphabet ! n"

fun base64_encode :: "nat list \<Rightarrow> string" where
  "base64_encode (a # b # c # rest) =
     b64 (a div 4) # b64 (a mod 4 * 16 + b div 16) # b64 (b mod 16 * 4 + c div 64) # b64 (c mod 64)
       # base64_encode rest"
| "base64_encode [a, b] = [b64 (a div 4), b64 (a mod 4 * 16 + b div 16), b64 (b mod 16 * 4), CHR ''='']"
| "base64_encode [a] = [b64 (a div 4), b64 (a mod 4 * 16), CHR ''='', CHR ''='']"
| "base64_encode [] = []"

fun index_of :: "'a list \<Rightarrow> 'a \<Rightarrow> nat \<Rightarrow> nat option" where
  "index_of [] c i = None"
| "index_of (x # xs) c i = (if x = c then Some i else index_of xs c (i + 1))"

definition b64_value :: "char \<Rightarrow> nat option" where
  "b64_value c = index_of base64_alphabet c 0"

fun base64_decode :: "string \<Rightarrow> nat list option" where
  "base64_decode (c1 # c2 # c3 # c4 # rest) =
     (case (b64_value c1, b64_value c2) of
        (Some v1, Some v2) \<Rightarrow>
          if rest = [] \<and> c3 = CHR ''='' \<and> c4 = CHR ''='' then Some [v1 * 4 + v2 div 16]
          else (case b64_value c3 of
                  None \<Rightarrow> None
                | Some v3 \<Rightarrow>
                    if rest = [] \<and> c4 = CHR ''=''
                    then Some [v1 * 4 + v2 div 16, v2 mod 16 * 16 + v3 div 4]
                    else (case (b64_value c4, base64_decode rest) of
                            (Some v4, Some bs) \<Rightarrow>
                              Some ([v1 * 4 + v2 div 16, v2 mod 16 * 16 + v3 div 4, v3 mod 4 * 64 + v4] @ bs)
                          | _ \<Rightarrow> None))
      | _ \<Rightarrow> None)"
| "base64_decode [] = Some []"
| "base64_decode _ = None"

subsection \<open>Handshake\<close>

text \<open>
  Modelled from the spec: the value of \<open>WEBSOCKET_GUID\<close> is defined in the missing
  \<open>WebSocket.cpp\<close>; the spec calls it "a fixed 36-byte protocol GUID" of RFC 6455, whose
  section 1.3 gives it.
\<close>

definition WEBSOCKET_GUID :: string where
  "WEBSOCKET_GUID = ''258EAFA5-E914-47DA-95CA-C5AB0DC85B11''"

text \<open>Modelled from the spec: \<open>computeAccept\<close>, declared in the header, defined elsewhere.\<close>

definition computeAccept :: "string \<Rightarrow> string" where
  "computeAccept key = base64_encode (sha1 (to_bytes (key @ WEBSOCKET_GUID)))"

text \<open>
  Modelled from the spec: the HTTP collaborator, "request/response header get/set,
  status line get/set". Header names compare without regard to case; a header value is
  a comma-separated list of tokens.
\<close>

record http_request =
  req_headers :: "(string \<times> string) list"

record http_response =
  status :: nat
  reason :: string
  resp_headers :: "(string \<times> string) list"

definition to_lower :: "char \<Rightarrow> char" where
  "to_lower c = (let n = of_char c :: nat in if 65 \<le> n \<and> n \<le> 90 then char_of (n + 32) else c)"

definition icompare :: "string \<Rightarrow> string \<Rightarrow> bool" where
  "icompare a b = (map to_lower a = map to_lower b)"

fun get_header :: "(string \<times> string) list \<Rightarrow> string \<Rightarrow> string option" where
  "get_header [] n = None"
| "get_header ((k, v) # hs) n = (if icompare k n then Some v else get_header hs n)"

fun split_commas :: "string \<Rightarrow> string list" where
  "split_commas [] = [[]]"
| "split_commas (c # cs) =
     (if c = CHR '','' then [] # split_commas cs
      else (case split_commas cs of t # ts \<Rightarrow> (c # t) # ts | [] \<Rightarrow> [[c]]))"

definition trim :: "string \<Rightarrow> string" where
  "trim s = rev (dropWhile (\<lambda>c. c = CHR '' '') (rev (dropWhile (\<lambda>c. c = CHR '' '') s)))"

definition has_token :: "(string \<times> string) list \<Rightarrow> string \<Rightarrow> string \<Rightarrow> bool" where
  "has_token hs name tok =
     (case get_header hs name of
        None \<Rightarrow> False
      | Some v \<Rightarrow> list_ex (\<lambda>t. icompare (trim t) tok) (split_commas v))"

text \<open>
  Modelled from the spec: \<open>WebSocket::accept\<close>, the server side of the handshake, in the
  order of the spec: the Upgrade and Connection tokens, the version header, the key
  header with a Base64 value of 16 bytes, the optional authentication (\<open>auth\<close> is the
  check of the credentials, when credentials were supplied), then the 101 response with
  the accept value.
\<close>

definition accept :: "(http_request \<Rightarrow> bool) option \<Rightarrow> http_request \<Rightarrow> ErrorCodes + http_response" where
  "accept auth req =
     (if \<not> (has_token (req_headers req) ''Connection'' ''Upgrade''
             \<and> has_token (req_headers req) ''Upgrade'' ''websocket'')
      then Inl WS_ERR_NO_HANDSHAKE
      else case get_header (req_headers req) ''Sec-WebSocket-Version'' of
        None \<Rightarrow> Inl WS_ERR_HANDSHAKE_NO_VERSION
      | Some v \<Rightarrow>
          if v \<noteq> WEBSOCKET_VERSION then Inl WS_ERR_HANDSHAKE_UNSUPPORTED_VERSION
          else case get_header (req_headers req) ''Sec-WebSocket-Key'' of
            None \<Rightarrow> Inl WS_ERR_HANDSHAKE_NO_KEY
          | Some key \<Rightarrow>
              if (case base64_decode key of None \<Rightarrow> True | Some bs \<Rightarrow> length bs \<noteq> 16)
              then Inl WS_ERR_HANDSHAKE_NO_KEY
              else if (case auth of None \<Rightarrow> False | Some check \<Rightarrow> \<not> check req)
              then Inl WS_ERR_UNAUTHORIZED
              else Inr \<lparr>status = 101, reason = ''Switching Protocols'',
                        resp_headers = [(''Upgrade'', ''websocket''), (''Connection'', ''Upgrade''),
                                        (''Sec-WebSocket-Accept'', computeAccept key)]\<rparr>)"

text \<open>The opening handshake of RFC 6455, section 1.2, as a request.\<close>

definition rfc6455_request :: http_request where
  "rfc6455_request = \<lparr>req_headers =
     [(''Host'', ''server.example.com''),
      (''Upgrade'', ''websocket''),
      (''Connection'', ''Upgrade''),
      (''Sec-WebSocket-Key'', ''dGhlIHNhbXBsZSBub25jZQ==''),
      (''Origin'', ''http://example.com''),
      (''Sec-WebSocket-Protocol'', ''chat, superchat''),
      (''Sec-WebSocket-Version'', ''13'')]\<rparr>"


subsection \<open>Frames\<close>

text \<open>
  Modelled from the spec: the wire format of a frame header,
  \<^verbatim>\<open>byte0: FIN(1) RSV1(1) RSV2(1) RSV3(1) OPCODE(4)
  byte1: MASK(1) LEN7(7)
    LEN7==126 -> next 2 bytes: LEN16 (big-endian)
    LEN7==127 -> next 8 bytes: LEN64 (big-endian)
  if MASK: next 4 bytes: masking key
  payload: LEN bytes, XORed with masking key (cycled) if masked\<close>
\<close>

definition be_bytes :: "nat \<Rightarrow> nat \<Rightarrow> byte list" where
  "be_bytes k n = map (\<lambda>i. of_nat (n div 256 ^ (k - 1 - i))) [0..<k]"

definition be_nat :: "byte list \<Rightarrow> nat" where
  "be_nat bs = foldl (\<lambda>acc b. acc * 256 + unat b) 0 bs"

definition key_bytes :: "32 word \<Rightarrow> byte list" where
  "key_bytes k = [ucast (drop_bit 24 k), ucast (drop_bit 16 k), ucast (drop_bit 8 k), ucast k]"

text \<open>\<open>byte[i] ^= key[i mod 4]\<close>\<close>

definition mask_payload :: "byte list \<Rightarrow> byte list \<Rightarrow> byte list" where
  "mask_payload key payload = map (\<lambda>(i, b). b XOR key ! (i mod 4)) (zip [0..<length payload] payload)"

definition encode_length :: "bool \<Rightarrow> nat \<Rightarrow> byte list" where
  "encode_length masked n =
     (let m = (if masked then 0x80 else 0) in
      if n < 126 then [m OR of_nat n]
      else if n < 65536 then [m OR 126] @ be_bytes 2 n
      else [m OR 127] @ be_bytes 8 n)"

definition encode_header :: "byte \<Rightarrow> byte list option \<Rightarrow> nat \<Rightarrow> byte list" where
  "encode_header flags key n =
     (case key of
        None \<Rightarrow> flags # encode_length False n
      | Some k \<Rightarrow> flags # encode_length True n @ k)"

definition encode_frame :: "byte \<Rightarrow> byte list option \<Rightarrow> byte list \<Rightarrow> byte list" where
  "encode_frame flags key payload =
     encode_header flags key (length payload)
       @ (case key of None \<Rightarrow> payload | Some k \<Rightarrow> mask_payload k payload)"

subsection \<open>Connection state\<close>

text \<open>
  Modelled from the spec: "per WebSocket instance: mode (server|client),
  max-payload-size limit, and -- for non-blocking sockets only -- partially-sent or
  partially-received frame progress (bytes of header and/or payload already transferred)".
  The progress of a send is the masking key chosen for the frame under way and the
  number of its bytes written; the progress of a receive is the bytes of the frame read
  so far. \<open>wire\<close> is everything written to the socket.
\<close>

record websocket =
  ws_mode :: Mode
  maxPayloadSize :: nat
  blocking :: bool
  send_progress :: "(byte list option \<times> nat) option"
  recv_progress :: "byte list"
  wire :: "byte list"

subsection \<open>Sending\<close>

text \<open>
  Modelled from the spec: \<open>sendFrame(buffer, length, flags)\<close>. \<open>rnd\<close> is the fresh masking
  key the generator would give for a new frame, \<open>cap\<close> the number of bytes the socket
  accepts at this call. A client masks, a server does not. A blocking socket takes the
  whole frame. The result is the payload length, or -1 when part of the frame is still
  to be written.
\<close>

definition frame_in_progress :: "websocket \<Rightarrow> 32 word \<Rightarrow> byte list option \<times> nat" where
  "frame_in_progress ws rnd =
     (case send_progress ws of
        None \<Rightarrow> (if ws_mode ws = WS_CLIENT then Some (key_bytes rnd) else None, 0)
      | Some p \<Rightarrow> p)"

definition sendFrame :: "websocket \<Rightarrow> byte list \<Rightarrow> byte \<Rightarrow> 32 word \<Rightarrow> nat \<Rightarrow> int \<times> websocket" where
  "sendFrame ws payload flags rnd cap =
     (case frame_in_progress ws rnd of (key, sent) \<Rightarrow>
        let frame = encode_frame flags key payload;
            rest = drop sent frame;
            n = (if blocking ws then length rest else min cap (length rest));
            ws' = ws\<lparr>wire := wire ws @ take n rest\<rparr>
        in if n = length rest
           then (int (length payload), ws'\<lparr>send_progress := None\<rparr>)
           else (- 1, ws'\<lparr>send_progress := Some (key, sent + n)\<rparr>))"

text \<open>
  The caller's loop: the call is repeated with the same buffer and flags, once for each
  answer of the environment, until a call returns something else than -1.
\<close>

fun sendFrame_retry ::
  "websocket \<Rightarrow> byte list \<Rightarrow> byte \<Rightarrow> (32 word \<times> nat) list \<Rightarrow> int list \<times> websocket" where
  "sendFrame_retry ws payload flags [] = ([], ws)"
| "sendFrame_retry ws payload flags ((rnd, cap) # env) =
     (case sendFrame ws payload flags rnd cap of (r, ws') \<Rightarrow>
        if r = - 1
        then (case sendFrame_retry ws' payload flags env of (rs, ws'') \<Rightarrow> (r # rs, ws''))
        else ([r], ws'))"

subsection \<open>Receiving\<close>

datatype recv_error = ProtocolError | PayloadTooBig | Timeout

datatype 'a parse = Incomplete | Failed recv_error | Parsed 'a

definition opcode_of :: "byte \<Rightarrow> byte" where
  "opcode_of b0 = b0 AND FRAME_OP_BITMASK"

definition defined_opcode :: "byte \<Rightarrow> bool" where
  "defined_opcode op =
     (op = FRAME_OP_CONT \<or> op = FRAME_OP_TEXT \<or> op = FRAME_OP_BINARY
      \<or> op = FRAME_OP_CLOSE \<or> op = FRAME_OP_PING \<or> op = FRAME_OP_PONG)"

definition is_control :: "byte \<Rightarrow> bool" where
  "is_control op = (op = FRAME_OP_CLOSE \<or> op = FRAME_OP_PING \<or> op = FRAME_OP_PONG)"

definition reserved_bits :: "byte \<Rightarrow> byte" where
  "reserved_bits b0 = b0 AND (FRAME_FLAG_RSV1 OR FRAME_FLAG_RSV2 OR FRAME_FLAG_RSV3)"

text \<open>
  Modelled from the spec: the header of a received frame. "Reserved bits set, or an
  undefined opcode: protocol error"; "control frames with payload length > 125, or with
  FIN=0, are protocol errors"; "payload length <= configured max-payload-size; exceeding
  it is a payload too big error". The result is the first byte, the masking key, the
  payload length and the length of the header.
\<close>

definition parse_header :: "nat \<Rightarrow> byte list \<Rightarrow> (byte \<times> byte list option \<times> nat \<times> nat) parse" where
  "parse_header maxp data =
     (case data of
        b0 # b1 # ds \<Rightarrow>
          if reserved_bits b0 \<noteq> 0 \<or> \<not> defined_opcode (opcode_of b0) then Failed ProtocolError
          else
            let len7 = unat (b1 AND 0x7F);
                masked = (b1 AND 0x80 \<noteq> 0);
                ext = (if len7 = 126 then 2 else if len7 = 127 then 8 else 0)
            in if is_control (opcode_of b0) \<and> (125 < len7 \<or> b0 AND FRAME_FLAG_FIN = 0)
               then Failed ProtocolError
               else if length ds < ext then Incomplete
               else
                 let len = (if ext = 0 then len7 else be_nat (take ext ds))
                 in if maxp < len then Failed PayloadTooBig
                    else if masked
                    then (if length ds < ext + 4 then Incomplete
                          else Parsed (b0, Some (take 4 (drop ext ds)), len, 2 + ext + 4))
                    else Parsed (b0, None, len, 2 + ext)
      | _ \<Rightarrow> Incomplete)"

text \<open>
  Modelled from the spec: \<open>receiveFrame(buffer, length, flags)\<close>. \<open>buf\<close> is the caller's
  buffer (its size is the \<open>length\<close> argument) and \<open>flags\<close> the caller's variable; \<open>stream\<close>
  is what the socket has to deliver. The result is the return value, the flags, the
  buffer, the connection and what is left at the socket. With part of a frame only, a
  non-blocking socket keeps the bytes read and returns -1, leaving buffer and flags as
  they were; a blocking socket waits, which ends in the timeout. A payload larger than
  the buffer is the payload too big error ("If the frame's payload is larger, a
  WebSocketException is thrown").
\<close>

definition receiveFrame ::
  "websocket \<Rightarrow> byte list \<Rightarrow> int \<Rightarrow> byte list
     \<Rightarrow> recv_error + ((int \<times> int \<times> byte list) \<times> websocket \<times> byte list)" where
  "receiveFrame ws buf flags stream =
     (let data = recv_progress ws @ stream;
          again = (if blocking ws then Inl Timeout
                   else Inr ((- 1, flags, buf), ws\<lparr>recv_progress := data\<rparr>, []))
      in case parse_header (maxPayloadSize ws) data of
           Failed e \<Rightarrow> Inl e
         | Incomplete \<Rightarrow> again
         | Parsed (b0, key, len, hlen) \<Rightarrow>
             if length buf < len then Inl PayloadTooBig
             else if length data < hlen + len then again
             else
               let raw = take len (drop hlen data);
                   payload = (case key of None \<Rightarrow> raw | Some k \<Rightarrow> mask_payload k raw)
               in Inr ((int len, uint b0, payload @ drop len buf),
                       ws\<lparr>recv_progress := []\<rparr>, drop (hlen + len) data))"

text \<open>A server-side connection on a non-blocking socket, nothing under way.\<close>

definition idle_server :: websocket where
  "idle_server = \<lparr>ws_mode = WS_SERVER, maxPayloadSize = 2147483647, blocking = False,
     send_progress = None, recv_progress = [], wire = []\<rparr>"

definition idle_client :: websocket where
  "idle_client = idle_server\<lparr>ws_mode := WS_CLIENT\<rparr>"

subsection \<open>Conversion from a generic socket\<close>

text \<open>
  Modelled from the spec: the bodies of \<open>WebSocket(const Socket&)\<close> and
  \<open>operator = (const Socket&)\<close> are in the missing \<open>WebSocket.cpp\<close>, and the spec does
  not describe them; what is known is the documentation of the two declarations in the
  header: "Creates a WebSocket from another Socket, which must be a WebSocket, otherwise
  a Poco::InvalidArgumentException will be thrown", and for the assignment "The other
  socket must be a WebSocket, otherwise a Poco::InvalidArgumentException will be thrown".
  A socket is a handle on an implementation object, which has a class; copying a socket
  shares the object.
\<close>

datatype impl_class =
    WebSocketImpl | StreamSocketImpl | ServerSocketImpl | DatagramSocketImpl | RawSocketImpl

datatype exn = InvalidArgumentException

record socket_handle =
  impl :: addr

type_synonym impl_heap = "addr \<Rightarrow> impl_class"

definition WebSocket_from_Socket :: "impl_heap \<Rightarrow> socket_handle \<Rightarrow> exn + socket_handle" where
  "WebSocket_from_Socket h s =
     (if h (impl s) = WebSocketImpl then Inr \<lparr>impl = impl s\<rparr> else Inl InvalidArgumentException)"

text \<open>The assignment gives the new value of the assigned WebSocket; a throw leaves it as it was.\<close>

definition WebSocket_assign :: "impl_heap \<Rightarrow> socket_handle \<Rightarrow> socket_handle \<Rightarrow> exn + socket_handle" where
  "WebSocket_assign h this s =
     (if h (impl s) = WebSocketImpl then Inr (this\<lparr>impl := impl s\<rparr>) else Inl InvalidArgumentException)"

definition sample_heap :: impl_heap where
  "sample_heap = (\<lambda>_. StreamSocketImpl)(10 := WebSocketImpl, 20 := ServerSocketImpl)"


section \<open>Properties of the acceptor\<close>

lemma init_loop_eq:
  "init_loop name i n rs = rs @ map (\<lambda>k. ParallelReactor (name @ ''#'' @ to_string k)) [i..<n]"
proof (induction name i n rs rule: init_loop.induct)
  case (1 name i n rs)
  show ?case
  proof (cases "i < n")
    case True
    then show ?thesis
      using 1 by (subst init_loop.simps) (simp add: upt_conv_Cons)
  next
    case False
    then show ?thesis by (subst init_loop.simps) simp
  qed
qed

lemma unat_next_Suc:
  fixes x :: "64 word"
  assumes "unat x < unat (n :: 32 word)"
  shows "unat (x + 1) = Suc (unat x)"
proof -
  have "unat n < 2 ^ 32" using unsigned_less [of n, where ?'a = nat] by simp
  then have "unat x + 1 < 2 ^ 64" using assms by simp
  then show ?thesis by (simp add: unat_word_ariths)
qed

lemma init_ok:
  "init a = (if a_threads a = 0 then Inl AssertionViolation
     else Inr (a\<lparr>a_reactors := a_reactors a @ map (\<lambda>k. ParallelReactor (a_threadName a @ ''#'' @ to_string k)) [0..<unat (a_threads a)]\<rparr>))"
  by (simp add: init_def init_loop_eq word_gt_0)

lemma next_reactor_ok:
  assumes "invariant a"
  shows "\<exists>a'. next_reactor a = Inr (unat (a_next a), a')
     \<and> a_reactors a' = a_reactors a \<and> a_threads a' = a_threads a
     \<and> a_pReactor a' = a_pReactor a \<and> a_socket a' = a_socket a
     \<and> unat (a_next a') = (unat (a_next a) + 1) mod length (a_reactors a)"
proof -
  from assms have lt: "unat (a_next a) < unat (a_threads a)"
    and len: "length (a_reactors a) = unat (a_threads a)"
    by (simp_all add: invariant_def)
  have suc: "unat (a_next a + 1) = Suc (unat (a_next a))"
    by (rule unat_next_Suc [OF lt])
  show ?thesis
    using lt len suc by (auto simp: next_reactor_def Let_def mod_Suc)
qed

lemma reactor_loop_None:
  "reactor_loop rs i s = None \<longleftrightarrow> (\<forall>r\<in>set rs. \<not> has r s)"
  by (induction rs arbitrary: i) auto

lemma reactor_loop_Some:
  "reactor_loop rs i s = Some j \<Longrightarrow>
     i \<le> j \<and> j - i < length rs \<and> has (rs ! (j - i)) s \<and> (\<forall>k<j - i. \<not> has (rs ! k) s)"
proof (induction rs arbitrary: i)
  case Nil
  then show ?case by simp
next
  case (Cons r rs)
  show ?case
  proof (cases "has r s")
    case True
    with Cons.prems show ?thesis by simp
  next
    case False
    with Cons.prems have rec: "reactor_loop rs (Suc i) s = Some j" by simp
    from Cons.IH [OF rec] have le: "Suc i \<le> j" and lt: "j - Suc i < length rs"
      and h: "has (rs ! (j - Suc i)) s" and mn: "\<forall>k<j - Suc i. \<not> has (rs ! k) s"
      by simp_all
    from le have eq: "j - i = Suc (j - Suc i)" by simp
    have "\<forall>k<j - i. \<not> has ((r # rs) ! k) s"
    proof (intro allI impI)
      fix k assume "k < j - i"
      then show "\<not> has ((r # rs) ! k) s"
        using False mn eq by (cases k) auto
    qed
    then show ?thesis using le lt h eq by simp
  qed
qed

lemma reactor_for_Some:
  "reactor_for a s = Some j \<Longrightarrow>
     j < length (a_reactors a) \<and> has (a_reactors a ! j) s \<and> (\<forall>k<j. \<not> has (a_reactors a ! k) s)"
  using reactor_loop_Some [of "a_reactors a" 0 s j] by (simp add: reactor_for_def)

lemma reactor_for_None:
  "reactor_for a s = None \<longleftrightarrow> (\<forall>r\<in>set (a_reactors a). \<not> has r s)"
  by (simp add: reactor_for_def reactor_loop_None)

lemma createServiceHandler_affinity:
  assumes "reactor_for a s = Some j"
  shows "createServiceHandler ctor s (a, e) =
     Inr ((s, j), a\<lparr>a_reactors := (a_reactors a)[j := ctor s (a_reactors a ! j)]\<rparr>,
          e\<lparr>trace := trace e @ [WakeUp (Pool j), NewServiceHandler s (Pool j)]\<rparr>)"
  using assms by (simp add: createServiceHandler_def wakeUp_def Let_def)

lemma createServiceHandler_round_robin:
  assumes "invariant a" and "reactor_for a s = None"
  shows "\<exists>a'. createServiceHandler ctor s (a, e) =
       Inr ((s, unat (a_next a)), a',
            e\<lparr>trace := trace e @ [WakeUp (Pool (unat (a_next a))),
                                   NewServiceHandler s (Pool (unat (a_next a)))]\<rparr>)
     \<and> invariant a' \<and> length (a_reactors a') = length (a_reactors a)
     \<and> a_pReactor a' = a_pReactor a \<and> a_socket a' = a_socket a
     \<and> unat (a_next a') = (unat (a_next a) + 1) mod length (a_reactors a)"
proof -
  from next_reactor_ok [OF assms(1)] obtain a1 where
    nr: "next_reactor a = Inr (unat (a_next a), a1)"
    and rs: "a_reactors a1 = a_reactors a" and th: "a_threads a1 = a_threads a"
    and pr: "a_pReactor a1 = a_pReactor a" and so: "a_socket a1 = a_socket a"
    and nx: "unat (a_next a1) = (unat (a_next a) + 1) mod length (a_reactors a)"
    by blast
  from assms(1) have pos: "0 < length (a_reactors a)" by (simp add: invariant_def)
  let ?i = "unat (a_next a)"
  let ?a' = "a1\<lparr>a_reactors := (a_reactors a1)[?i := ctor s (a_reactors a1 ! ?i)]\<rparr>"
  have inv: "invariant ?a'"
    using assms(1) rs th nx pos by (simp add: invariant_def)
  have "createServiceHandler ctor s (a, e) =
       Inr ((s, ?i), ?a', e\<lparr>trace := trace e @ [WakeUp (Pool ?i), NewServiceHandler s (Pool ?i)]\<rparr>)"
    using assms(2) nr by (simp add: createServiceHandler_def wakeUp_def Let_def)
  then show ?thesis using inv rs pr so nx by auto
qed

lemma new_acceptor_ok:
  "new_acceptor sock n name =
     (if n = 0 then Inl AssertionViolation
      else Inr \<lparr>a_threadName = name, a_socket = sock, a_pReactor = None, a_threads = n,
                a_reactors = map (\<lambda>k. ParallelReactor (name @ ''#'' @ to_string k)) [0..<unat n],
                a_next = 0\<rparr>)"
  by (simp add: new_acceptor_def init_ok)

lemma new_acceptor_with_ok:
  "new_acceptor_with this sock r n name e =
     (if n = 0 then Inl AssertionViolation
      else Inr (\<lparr>a_threadName = name, a_socket = sock, a_pReactor = Some r, a_threads = n,
                a_reactors = map (\<lambda>k. ParallelReactor (name @ ''#'' @ to_string k)) [0..<unat n],
                a_next = 0\<rparr>,
                e\<lparr>heap := (heap e)(r := addEventHandler (heap e r) sock (OnAccept this))\<rparr>))"
  by (simp add: new_acceptor_with_def init_ok)

lemma unat_pos: "n \<noteq> 0 \<Longrightarrow> 0 < unat (n :: 32 word)"
  by (simp add: unat_gt_0)

text \<open>
  Claim C4. Constructing the acceptor with \<open>threads = 0\<close> fails at construction time (the
  assertion of \<open>init\<close>), with either constructor; with \<open>threads = N\<close>, \<open>N \<ge> 1\<close>,
  construction succeeds and the vector of reactors holds exactly \<open>N\<close> reactors, named
  \<open>threadName#0\<close> to \<open>threadName#(N-1)\<close>.
\<close>

theorem construction_pool_size:
  "(if n = 0
    then new_acceptor sock n name = Inl AssertionViolation
       \<and> new_acceptor_with this sock r n name e = Inl AssertionViolation
    else (\<exists>a. new_acceptor sock n name = Inr a
            \<and> a_reactors a = map (\<lambda>k. ParallelReactor (name @ ''#'' @ to_string k)) [0..<unat n]
            \<and> length (a_reactors a) = unat n)
       \<and> (\<exists>a e'. new_acceptor_with this sock r n name e = Inr (a, e')
            \<and> a_reactors a = map (\<lambda>k. ParallelReactor (name @ ''#'' @ to_string k)) [0..<unat n]
            \<and> length (a_reactors a) = unat n))"
  by (simp add: new_acceptor_ok new_acceptor_with_ok)

theorem construction_pool_size_witness:
  "new_acceptor 7 0 ''w'' = Inl AssertionViolation
   \<and> new_acceptor_with 1 7 2 0 ''w'' env0 = Inl AssertionViolation
   \<and> (\<exists>a. new_acceptor 7 3 ''w'' = Inr a
         \<and> a_reactors a = [ParallelReactor ''w#0'', ParallelReactor ''w#1'', ParallelReactor ''w#2''])
   \<and> (\<exists>a e'. new_acceptor_with 1 7 2 3 ''w'' env0 = Inr (a, e')
         \<and> a_reactors a = [ParallelReactor ''w#0'', ParallelReactor ''w#1'', ParallelReactor ''w#2''])"
proof -
  have ts: "to_string 0 = ''0''" "to_string (Suc 0) = ''1''" "to_string 2 = ''2''"
    by code_simp+
  have upt3: "[0..<3] = [0, 1, 2]" by (simp add: upt_conv_Cons)
  show ?thesis
    using construction_pool_size [of 0 7 "''w''" 1 2 env0]
      construction_pool_size [of 3 7 "''w''" 1 2 env0]
    by (simp add: ts upt3) blast
qed

text \<open>
  Claim C3. \<open>_next\<close> is 0 after construction, where the invariant holds. A call of
  \<open>createServiceHandler\<close> on an acceptor that satisfies the invariant (a pool of
  \<open>N \<ge> 1\<close> reactors, \<open>_next < N\<close>) succeeds and leaves \<open>_next\<close> below \<open>N\<close>; when no reactor
  of the pool has the socket the new cursor is \<open>(_next + 1) mod N\<close>, otherwise it is unchanged.
\<close>

theorem cursor_invariant:
  "((\<forall>a. new_acceptor sock n name = Inr a \<longrightarrow> a_next a = 0 \<and> invariant a)
    \<and> (\<forall>a e'. new_acceptor_with this sock r n name e0 = Inr (a, e') \<longrightarrow> a_next a = 0 \<and> invariant a))
   \<and> (invariant a \<longrightarrow>
        (\<exists>h a' e'. createServiceHandler ctor s (a, e) = Inr (h, a', e')
           \<and> invariant a'
           \<and> length (a_reactors a') = length (a_reactors a)
           \<and> unat (a_next a') < length (a_reactors a')
           \<and> (if reactor_for a s = None
               then unat (a_next a') = (unat (a_next a) + 1) mod length (a_reactors a)
               else a_next a' = a_next a)))"
proof (intro conjI allI impI)
  fix a assume "new_acceptor sock n name = Inr a"
  then show "a_next a = 0" "invariant a"
    by (auto simp: new_acceptor_ok invariant_def word_gt_0 unat_pos split: if_splits)
next
  fix a e' assume "new_acceptor_with this sock r n name e0 = Inr (a, e')"
  then show "a_next a = 0" "invariant a"
    by (auto simp: new_acceptor_with_ok invariant_def word_gt_0 unat_pos split: if_splits)
next
  assume inv: "invariant a"
  show "\<exists>h a' e'. createServiceHandler ctor s (a, e) = Inr (h, a', e')
           \<and> invariant a'
           \<and> length (a_reactors a') = length (a_reactors a)
           \<and> unat (a_next a') < length (a_reactors a')
           \<and> (if reactor_for a s = None
               then unat (a_next a') = (unat (a_next a) + 1) mod length (a_reactors a)
               else a_next a' = a_next a)"
  proof (cases "reactor_for a s")
    case None
    from createServiceHandler_round_robin [OF inv None, of ctor e]
    show ?thesis using None by (auto simp: invariant_def)
  next
    case (Some j)
    show ?thesis
      using inv Some by (simp add: createServiceHandler_affinity invariant_def)
  qed
qed

lemma invariant_pool3: "invariant pool3"
  by (simp add: invariant_def pool3_def)

lemma has_ParallelReactor: "\<not> has (ParallelReactor name) s"
  by (simp add: has_def ParallelReactor_def)

lemma reactor_for_pool3: "reactor_for pool3 s = None"
  by (simp add: reactor_for_def pool3_def has_ParallelReactor)

theorem cursor_invariant_witness:
  "invariant pool3 \<and> reactor_for pool3 42 = None
   \<and> (\<exists>h a' e'. createServiceHandler register_socket 42 (pool3, env0) = Inr (h, a', e')
         \<and> invariant a' \<and> unat (a_next a') = 1)"
proof -
  have val: "(unat (a_next pool3) + 1) mod length (a_reactors pool3) = 1"
    by (simp add: pool3_def)
  have "\<exists>h a' e'. createServiceHandler register_socket 42 (pool3, env0) = Inr (h, a', e')
         \<and> invariant a'
         \<and> unat (a_next a') = (unat (a_next pool3) + 1) mod length (a_reactors pool3)"
    using cursor_invariant [of 7 3 "''w''" 1 2 env0 pool3 register_socket 42 env0]
      invariant_pool3 reactor_for_pool3 [of 42]
    by auto
  then show ?thesis
    using invariant_pool3 reactor_for_pool3 [of 42] by (simp only: val)
qed

lemma createServiceHandler_total:
  assumes "invariant a"
  shows "\<exists>i a'. createServiceHandler ctor s (a, e) =
       Inr ((s, i), a', e\<lparr>trace := trace e @ [WakeUp (Pool i), NewServiceHandler s (Pool i)]\<rparr>)
     \<and> i < length (a_reactors a) \<and> invariant a' \<and> a_pReactor a' = a_pReactor a
     \<and> a_socket a' = a_socket a"
proof (cases "reactor_for a s")
  case None
  from createServiceHandler_round_robin [OF assms None, of ctor e]
  show ?thesis using assms by (auto simp: invariant_def)
next
  case (Some j)
  with reactor_for_Some [OF Some] assms show ?thesis
    by (simp add: createServiceHandler_affinity invariant_def)
qed

text \<open>
  Claim C2. When the socket is registered with a reactor of the pool,
  \<open>createServiceHandler\<close> binds the handler to a reactor that has the socket (the first
  such in the vector, hence that very reactor when only one has it), wakes that reactor
  and leaves \<open>_next\<close> as it was. Whenever a call changes \<open>_next\<close>, no reactor of the pool
  had the socket.
\<close>

theorem affinity_keeps_cursor:
  "(i < length (a_reactors a) \<and> has (a_reactors a ! i) s \<longrightarrow>
      (\<exists>j a' e'. createServiceHandler ctor s (a, e) = Inr ((s, j), a', e')
         \<and> j \<le> i \<and> has (a_reactors a ! j) s \<and> (\<forall>k<j. \<not> has (a_reactors a ! k) s)
         \<and> a_next a' = a_next a
         \<and> trace e' = trace e @ [WakeUp (Pool j), NewServiceHandler s (Pool j)]))
   \<and> (\<forall>h a' e'. createServiceHandler ctor s (a, e) = Inr (h, a', e') \<and> a_next a' \<noteq> a_next a
         \<longrightarrow> (\<forall>r\<in>set (a_reactors a). \<not> has r s))"
proof (intro conjI impI allI)
  assume "i < length (a_reactors a) \<and> has (a_reactors a ! i) s"
  then have i: "i < length (a_reactors a)" and hi: "has (a_reactors a ! i) s" by simp_all
  then have "reactor_for a s \<noteq> None"
    by (auto simp: reactor_for_None)
  then obtain j where j: "reactor_for a s = Some j" by blast
  from reactor_for_Some [OF j] have hj: "has (a_reactors a ! j) s"
    and mn: "\<forall>k<j. \<not> has (a_reactors a ! k) s" by simp_all
  from mn hi have "j \<le> i" by (meson not_le_imp_less)
  then show "\<exists>j a' e'. createServiceHandler ctor s (a, e) = Inr ((s, j), a', e')
         \<and> j \<le> i \<and> has (a_reactors a ! j) s \<and> (\<forall>k<j. \<not> has (a_reactors a ! k) s)
         \<and> a_next a' = a_next a
         \<and> trace e' = trace e @ [WakeUp (Pool j), NewServiceHandler s (Pool j)]"
    using hj mn by (simp add: createServiceHandler_affinity [OF j])
next
  fix h a' e'
  assume *: "createServiceHandler ctor s (a, e) = Inr (h, a', e') \<and> a_next a' \<noteq> a_next a"
  have "reactor_for a s = None"
  proof (cases "reactor_for a s")
    case None
    then show ?thesis .
  next
    case (Some j)
    with * show ?thesis by (auto simp: createServiceHandler_affinity)
  qed
  then show "\<forall>r\<in>set (a_reactors a). \<not> has r s" by (simp add: reactor_for_None)
qed

theorem affinity_keeps_cursor_witness:
  "has (a_reactors pinned3 ! 2) 42
   \<and> (\<exists>a' e'. createServiceHandler register_socket 42 (pinned3, env0) = Inr ((42, 2), a', e')
         \<and> a_next a' = 1
         \<and> trace e' = trace env0 @ [WakeUp (Pool 2), NewServiceHandler 42 (Pool 2)])
   \<and> (\<exists>h a' e'. createServiceHandler register_socket 43 (pinned3, env0) = Inr (h, a', e')
         \<and> a_next a' = 2 \<and> \<not> has (a_reactors pinned3 ! 2) 43)"
proof -
  have h2: "has (a_reactors pinned3 ! 2) 42"
    by (simp add: pinned3_def register_socket_def addEventHandler_def has_def ParallelReactor_def)
  have len: "2 < length (a_reactors pinned3)"
    by (simp add: pinned3_def)
  have nh: "\<not> has (a_reactors pinned3 ! 0) 42" "\<not> has (a_reactors pinned3 ! 1) 42"
    by (simp_all add: pinned3_def has_ParallelReactor)
  from affinity_keeps_cursor [of 2 pinned3 42 register_socket env0] h2 len
  obtain j a' e' where c: "createServiceHandler register_socket 42 (pinned3, env0) = Inr ((42, j), a', e')"
    and j: "j \<le> 2" "has (a_reactors pinned3 ! j) 42" and nx: "a_next a' = a_next pinned3"
    and tr: "trace e' = trace env0 @ [WakeUp (Pool j), NewServiceHandler 42 (Pool j)]"
    by blast
  have "j = 2"
  proof (rule ccontr)
    assume "j \<noteq> 2"
    with j(1) have "j = 0 \<or> j = 1" by arith
    with j(2) nh show False by auto
  qed
  with c nx tr have first: "\<exists>a' e'. createServiceHandler register_socket 42 (pinned3, env0) = Inr ((42, 2), a', e')
         \<and> a_next a' = 1
         \<and> trace e' = trace env0 @ [WakeUp (Pool 2), NewServiceHandler 42 (Pool 2)]"
    by (auto simp: pinned3_def)
  have second: "\<exists>h a' e'. createServiceHandler register_socket 43 (pinned3, env0) = Inr (h, a', e')
         \<and> a_next a' = 2 \<and> \<not> has (a_reactors pinned3 ! 2) 43"
    by (simp add: createServiceHandler_def wakeUp_def Let_def reactor_for_def next_reactor_def pinned3_def pool3_def
        has_def ParallelReactor_def register_socket_def addEventHandler_def)
  from h2 first second show ?thesis by blast
qed

text \<open>
  Claim C5. On an acceptor that satisfies the invariant and is registered with a reactor
  \<open>p\<close>, with a connection queued at the listening socket, \<open>onAccept\<close> succeeds and makes
  exactly these calls, in this order: one \<open>acceptConnection\<close>, which takes the first
  queued connection and no other; \<open>wakeUp\<close> on \<open>p\<close>; \<open>wakeUp\<close> on the pool reactor chosen
  for the socket; the construction of the service handler on that socket and that
  reactor. The handler is created only after its reactor has been woken.
\<close>

theorem onAccept_wakes_before_handler:
  assumes "invariant a" and "a_pReactor a = Some p" and "pending e = sock # rest"
  shows "\<exists>i a' e'. onAccept ctor (a, e) = Inr (a', e')
     \<and> pending e' = rest
     \<and> i < length (a_reactors a)
     \<and> trace e' = trace e @ [AcceptConnection sock, WakeUp (External p),
                               WakeUp (Pool i), NewServiceHandler sock (Pool i)]
     \<and> heap e' = heap e \<and> invariant a' \<and> a_pReactor a' = Some p"
proof -
  let ?e2 = "e\<lparr>pending := rest, trace := trace e @ [AcceptConnection sock],
               trace := (trace e @ [AcceptConnection sock]) @ [WakeUp (External p)]\<rparr>"
  from createServiceHandler_total [OF assms(1), of ctor sock ?e2]
  obtain i a' where
    c: "createServiceHandler ctor sock (a, ?e2) =
          Inr ((sock, i), a', ?e2\<lparr>trace := trace ?e2 @ [WakeUp (Pool i), NewServiceHandler sock (Pool i)]\<rparr>)"
    and i: "i < length (a_reactors a)" and inv: "invariant a'"
    and pr: "a_pReactor a' = a_pReactor a"
    by blast
  have "onAccept ctor (a, e) =
      Inr (a', ?e2\<lparr>trace := trace ?e2 @ [WakeUp (Pool i), NewServiceHandler sock (Pool i)]\<rparr>)"
    using assms(2,3) c by (simp add: onAccept_def acceptConnection_def wakeUp_def Let_def)
  then show ?thesis
    using i inv pr assms(2) by simp
qed

theorem onAccept_wakes_before_handler_witness:
  "invariant pinned3 \<and> a_pReactor pinned3 = Some 2
   \<and> (\<exists>a' e'. onAccept register_socket (pinned3, env0\<lparr>pending := [50, 51]\<rparr>) = Inr (a', e')
         \<and> pending e' = [51]
         \<and> trace e' = [AcceptConnection 50, WakeUp (External 2),
                        WakeUp (Pool 1), NewServiceHandler 50 (Pool 1)])"
proof -
  have inv: "invariant pinned3"
    by (simp add: invariant_def pinned3_def pool3_def)
  have pr: "a_pReactor pinned3 = Some 2"
    by (simp add: pinned3_def pool3_def)
  have pe: "pending (env0\<lparr>pending := [50, 51]\<rparr>) = 50 # [51]"
    by simp
  from onAccept_wakes_before_handler [OF inv pr pe, of register_socket]
  obtain i a' e' where oa: "onAccept register_socket (pinned3, env0\<lparr>pending := [50, 51]\<rparr>) = Inr (a', e')"
    and pd: "pending e' = [51]"
    and tr: "trace e' = trace (env0\<lparr>pending := [50, 51]\<rparr>) @ [AcceptConnection 50, WakeUp (External 2),
                               WakeUp (Pool i), NewServiceHandler 50 (Pool i)]"
    by blast
  have "onAccept register_socket (pinned3, env0\<lparr>pending := [50, 51]\<rparr>) =
      Inr (pinned3\<lparr>a_next := 2, a_reactors := [ParallelReactor ''w#0'',
             register_socket 50 (ParallelReactor ''w#1''),
             register_socket 42 (ParallelReactor ''w#2'')]\<rparr>,
           env0\<lparr>pending := [51], trace := [AcceptConnection 50, WakeUp (External 2),
                        WakeUp (Pool 1), NewServiceHandler 50 (Pool 1)]\<rparr>)"
    by (simp add: onAccept_def acceptConnection_def createServiceHandler_def wakeUp_def Let_def reactor_for_def next_reactor_def
        pinned3_def pool3_def env0_def has_def ParallelReactor_def register_socket_def
        addEventHandler_def)
  with oa tr have "i = 1" by (auto simp: env0_def)
  with oa pd tr inv pr show ?thesis by (auto simp: env0_def)
qed

lemma hasEventHandler_add:
  "hasEventHandler (addEventHandler r s ob) s ob"
  by (simp add: hasEventHandler_def addEventHandler_def)

lemma removeEventHandler_absent:
  "\<not> hasEventHandler r s ob \<Longrightarrow> removeEventHandler r s ob = r"
  by (simp add: hasEventHandler_def removeEventHandler_def)

lemma hasEventHandler_remove:
  "\<not> hasEventHandler (removeEventHandler r s ob) s ob"
  by (simp add: hasEventHandler_def removeEventHandler_def)

lemma registerAcceptor_registered:
  "hasEventHandler (heap e r) (a_socket a) (OnAccept this) \<Longrightarrow>
     registerAcceptor this r (a, e) = (a\<lparr>a_pReactor := Some r\<rparr>, e)"
  by (simp add: registerAcceptor_def Let_def)

lemma registerAcceptor_fresh:
  "\<not> hasEventHandler (heap e r) (a_socket a) (OnAccept this) \<Longrightarrow>
     registerAcceptor this r (a, e) =
       (a\<lparr>a_pReactor := Some r\<rparr>,
        e\<lparr>heap := (heap e)(r := addEventHandler (heap e r) (a_socket a) (OnAccept this))\<rparr>)"
  by (simp add: registerAcceptor_def Let_def)

lemma registerAcceptor_twice:
  "registerAcceptor this r (registerAcceptor this r (a, e)) = registerAcceptor this r (a, e)"
proof (cases "hasEventHandler (heap e r) (a_socket a) (OnAccept this)")
  case True
  then show ?thesis by (simp add: registerAcceptor_registered)
next
  case False
  then show ?thesis
    by (simp add: registerAcceptor_fresh registerAcceptor_registered hasEventHandler_add)
qed

lemma unregisterAcceptor_absent:
  "a_pReactor a = Some p \<Longrightarrow> \<not> hasEventHandler (heap e p) (a_socket a) (OnAccept this) \<Longrightarrow>
     unregisterAcceptor this (a, e) = (a, e)"
  by (simp add: unregisterAcceptor_def removeEventHandler_absent)

lemma unregisterAcceptor_twice:
  "unregisterAcceptor this (unregisterAcceptor this (a, e)) = unregisterAcceptor this (a, e)"
proof (cases "a_pReactor a")
  case None
  then show ?thesis by (simp add: unregisterAcceptor_def)
next
  case (Some p)
  then have u: "unregisterAcceptor this (a, e) =
      (a, e\<lparr>heap := (heap e)(p := removeEventHandler (heap e p) (a_socket a) (OnAccept this))\<rparr>)"
    by (simp add: unregisterAcceptor_def)
  show ?thesis
    unfolding u
    by (rule unregisterAcceptor_absent [OF Some]) (simp add: hasEventHandler_remove)
qed

text \<open>
  Claim C6, as amended. \<open>registerAcceptor\<close> is idempotent. When the accept handler is
  already in the table of the reactor, the call adds no second handler, changes no
  reactor and does not fail, but it is not always a no-op: the source assigns
  \<open>_pReactor = &reactor\<close> before the test, so the call points \<open>_pReactor\<close> at that reactor,
  and nothing at all changes exactly when \<open>_pReactor\<close> pointed there before. After any
  call the handler is in the table once if it was absent, and as often as before
  otherwise. \<open>unregisterAcceptor\<close> is idempotent too, and changes nothing when
  \<open>_pReactor\<close> is null or the handler is not in the table.
\<close>

theorem registration_idempotent:
  "registerAcceptor this r (registerAcceptor this r (a, e)) = registerAcceptor this r (a, e)
   \<and> (hasEventHandler (heap e r) (a_socket a) (OnAccept this) \<longrightarrow>
        registerAcceptor this r (a, e) = (a\<lparr>a_pReactor := Some r\<rparr>, e))
   \<and> (a_pReactor a = Some r \<and> hasEventHandler (heap e r) (a_socket a) (OnAccept this) \<longrightarrow>
        registerAcceptor this r (a, e) = (a, e))
   \<and> (\<forall>a' e'. registerAcceptor this r (a, e) = (a', e') \<longrightarrow>
        count_list (handlers (heap e' r)) (a_socket a, OnAccept this)
          = max 1 (count_list (handlers (heap e r)) (a_socket a, OnAccept this)))
   \<and> unregisterAcceptor this (unregisterAcceptor this (a, e)) = unregisterAcceptor this (a, e)
   \<and> (a_pReactor a = None \<longrightarrow> unregisterAcceptor this (a, e) = (a, e))
   \<and> (\<forall>p. a_pReactor a = Some p \<and> \<not> hasEventHandler (heap e p) (a_socket a) (OnAccept this) \<longrightarrow>
        unregisterAcceptor this (a, e) = (a, e))"
proof (intro conjI impI allI)
  show "registerAcceptor this r (registerAcceptor this r (a, e)) = registerAcceptor this r (a, e)"
    by (rule registerAcceptor_twice)
next
  assume "hasEventHandler (heap e r) (a_socket a) (OnAccept this)"
  then show "registerAcceptor this r (a, e) = (a\<lparr>a_pReactor := Some r\<rparr>, e)"
    by (rule registerAcceptor_registered)
next
  assume *: "a_pReactor a = Some r \<and> hasEventHandler (heap e r) (a_socket a) (OnAccept this)"
  then have "a\<lparr>a_pReactor := Some r\<rparr> = a" by simp
  with * show "registerAcceptor this r (a, e) = (a, e)"
    by (simp add: registerAcceptor_registered)
next
  fix a' e' assume *: "registerAcceptor this r (a, e) = (a', e')"
  show "count_list (handlers (heap e' r)) (a_socket a, OnAccept this)
          = max 1 (count_list (handlers (heap e r)) (a_socket a, OnAccept this))"
  proof (cases "hasEventHandler (heap e r) (a_socket a) (OnAccept this)")
    case True
    then have "count_list (handlers (heap e r)) (a_socket a, OnAccept this) \<noteq> 0"
      by (simp add: hasEventHandler_def count_list_0_iff)
    with True * show ?thesis by (auto simp: registerAcceptor_registered)
  next
    case False
    then have "count_list (handlers (heap e r)) (a_socket a, OnAccept this) = 0"
      by (simp add: hasEventHandler_def count_list_0_iff)
    with False * show ?thesis
      by (auto simp: registerAcceptor_fresh addEventHandler_def)
  qed
next
  show "unregisterAcceptor this (unregisterAcceptor this (a, e)) = unregisterAcceptor this (a, e)"
    by (rule unregisterAcceptor_twice)
next
  assume "a_pReactor a = None"
  then show "unregisterAcceptor this (a, e) = (a, e)"
    by (simp add: unregisterAcceptor_def)
next
  fix p
  assume "a_pReactor a = Some p \<and> \<not> hasEventHandler (heap e p) (a_socket a) (OnAccept this)"
  then show "unregisterAcceptor this (a, e) = (a, e)"
    by (simp add: unregisterAcceptor_absent)
qed

theorem registration_idempotent_witness:
  "registerAcceptor 1 2 (pool3, env0) = (pool3, env1)
   \<and> hasEventHandler (heap env1 2) (a_socket pool3) (OnAccept 1)
   \<and> registerAcceptor 1 2 (pool3, env1) = (pool3, env1)
   \<and> count_list (handlers (heap env1 2)) (a_socket pool3, OnAccept 1) = 1
   \<and> \<not> hasEventHandler (heap env0 2) (a_socket pool3) (OnAccept 1)
   \<and> unregisterAcceptor 1 (pool3, env0) = (pool3, env0)"
proof -
  have p: "a_pReactor pool3 = Some 2" and same: "pool3\<lparr>a_pReactor := Some 2\<rparr> = pool3"
    by (simp_all add: pool3_def)
  have fresh: "\<not> hasEventHandler (heap env0 2) (a_socket pool3) (OnAccept 1)"
    by (simp add: hasEventHandler_def env0_def ParallelReactor_def)
  have first: "registerAcceptor 1 2 (pool3, env0) = (pool3, env1)"
    using fresh by (simp add: registerAcceptor_fresh same env1_def pool3_def)
  have there: "hasEventHandler (heap env1 2) (a_socket pool3) (OnAccept 1)"
    by (simp add: env1_def pool3_def hasEventHandler_add)
  have cnt: "count_list (handlers (heap env1 2)) (a_socket pool3, OnAccept 1) = 1"
    by (simp add: env1_def env0_def pool3_def addEventHandler_def ParallelReactor_def)
  from registration_idempotent [of 1 2 pool3 env1] there
  have again: "registerAcceptor 1 2 (pool3, env1) = (pool3, env1)"
    by (simp add: same)
  from registration_idempotent [of 1 2 pool3 env0] p fresh
  have un: "unregisterAcceptor 1 (pool3, env0) = (pool3, env0)"
    by blast
  from first there again cnt fresh un show ?thesis by blast
qed

text \<open>
  The claim as first stated, a no-op for every reactor that already holds the handler,
  fails on a state the class reaches by itself: constructed on reactor 2, registered with
  reactor 3, registered with reactor 2 again. The last call finds the handler in the
  table of reactor 2 and still moves \<open>_pReactor\<close> from 3 to 2.
\<close>

theorem registration_idempotent_counterexample:
  "new_acceptor_with 1 7 2 3 ''w'' env0 = Inr (pool3, env1)
   \<and> registerAcceptor 1 3 (pool3, env1) = (moved3, env2)
   \<and> hasEventHandler (heap env2 2) (a_socket moved3) (OnAccept 1)
   \<and> registerAcceptor 1 2 (moved3, env2) = (pool3, env2)
   \<and> (pool3, env2) \<noteq> (moved3, env2)"
proof -
  have ts: "to_string 0 = ''0''" "to_string (Suc 0) = ''1''" "to_string 2 = ''2''"
    by code_simp+
  have upt3: "[0..<3] = [0, 1, 2]" by (simp add: upt_conv_Cons)
  have ctor: "new_acceptor_with 1 7 2 3 ''w'' env0 = Inr (pool3, env1)"
    by (simp add: new_acceptor_with_ok ts upt3 pool3_def env1_def)
  have fresh: "\<not> hasEventHandler (heap env1 3) (a_socket pool3) (OnAccept 1)"
    by (simp add: hasEventHandler_def env1_def env0_def ParallelReactor_def)
  have shifted: "registerAcceptor 1 3 (pool3, env1) = (moved3, env2)"
    using fresh by (simp add: registerAcceptor_fresh moved3_def env2_def pool3_def)
  have there: "hasEventHandler (heap env2 2) (a_socket moved3) (OnAccept 1)"
    by (simp add: env2_def env1_def moved3_def pool3_def hasEventHandler_add)
  have again: "registerAcceptor 1 2 (moved3, env2) = (pool3, env2)"
    using there by (simp add: registerAcceptor_registered moved3_def pool3_def)
  have "a_pReactor pool3 \<noteq> a_pReactor moved3"
    by (simp add: moved3_def pool3_def)
  then have diff: "(pool3, env2) \<noteq> (moved3, env2)" by auto
  from ctor shifted there again diff show ?thesis by blast
qed

lemma count_mod:
  assumes "i < N"
  shows "length (filter (\<lambda>k. k mod N = i) [0..<M]) = M div N + (if i < M mod N then 1 else 0)"
proof (induction M)
  case 0
  then show ?case by simp
next
  case (Suc M)
  show ?case
  proof (cases "Suc (M mod N) = N")
    case True
    then have m: "Suc M mod N = 0" and d: "Suc M div N = Suc (M div N)"
      by (simp_all add: mod_Suc div_Suc)
    from True assms Suc show ?thesis
      unfolding m d by auto
  next
    case False
    then have m: "Suc M mod N = Suc (M mod N)" and d: "Suc M div N = M div N"
      by (simp_all add: mod_Suc div_Suc)
    from False assms Suc show ?thesis
      unfolding m d by auto
  qed
qed

lemma ceil_div:
  assumes "0 < (N::nat)" and "M mod N \<noteq> 0"
  shows "(M + N - 1) div N = M div N + 1"
proof -
  obtain r where r: "M mod N = Suc r" using assms(2) by (cases "M mod N") auto
  have rN: "r < N" using r assms(1) by (metis Suc_lessD mod_less_divisor)
  have "M = M div N * N + Suc r" using r by (metis div_mult_mod_eq)
  then have "M + N - 1 = (M div N + 1) * N + r" by (simp add: algebra_simps)
  then have "(M + N - 1) div N = ((M div N + 1) * N + r) div N" by simp
  also have "\<dots> = M div N + 1"
  proof -
    have aux: "(q * N + r) div N = q" for q using rN by simp
    show ?thesis by (rule aux)
  qed
  finally show ?thesis .
qed

lemma floor_or_ceil:
  assumes "0 < (N::nat)"
  shows "M div N + (if i < M mod N then 1 else 0) = M div N
       \<or> M div N + (if i < M mod N then 1 else 0) = (M + N - 1) div N"
proof (cases "i < M mod N")
  case True
  then have "M mod N \<noteq> 0" by simp
  from ceil_div [OF assms this] True show ?thesis by simp
next
  case False
  then show ?thesis by simp
qed

lemma round_robin_run:
  assumes "invariant a" and "no_affinity ctor socks (a, e)"
  shows "\<exists>hs a' e'. createServiceHandlers ctor socks (a, e) = Inr (hs, a', e')
     \<and> length hs = length socks
     \<and> (\<forall>k<length socks. hs ! k = (socks ! k, (unat (a_next a) + k) mod length (a_reactors a)))
     \<and> invariant a'
     \<and> unat (a_next a') = (unat (a_next a) + length socks) mod length (a_reactors a)"
  using assms
proof (induction socks arbitrary: a e)
  case Nil
  then show ?case by (simp add: invariant_def)
next
  case (Cons s ss)
  let ?N = "length (a_reactors a)"
  let ?c = "unat (a_next a)"
  from Cons.prems(2) have none: "reactor_for a s = None" by simp
  from createServiceHandler_round_robin [OF Cons.prems(1) none, of ctor e]
  obtain a1 e1 where c1: "createServiceHandler ctor s (a, e) = Inr ((s, ?c), a1, e1)"
    and inv1: "invariant a1" and len1: "length (a_reactors a1) = ?N"
    and nx1: "unat (a_next a1) = (?c + 1) mod ?N"
    by blast
  from Cons.prems(2) c1 have na: "no_affinity ctor ss (a1, e1)" by simp
  from Cons.IH [OF inv1 na] obtain hs a' e' where
    run: "createServiceHandlers ctor ss (a1, e1) = Inr (hs, a', e')"
    and lhs: "length hs = length ss"
    and nth: "\<forall>k<length ss. hs ! k = (ss ! k, (unat (a_next a1) + k) mod length (a_reactors a1))"
    and inv': "invariant a'"
    and nx': "unat (a_next a') = (unat (a_next a1) + length ss) mod length (a_reactors a1)"
    by blast
  from Cons.prems(1) have cN: "?c < ?N" by (simp add: invariant_def)
  have shift: "((?c + 1) mod ?N + k) mod ?N = (?c + Suc k) mod ?N" for k
    by (simp add: mod_add_left_eq)
  have all: "createServiceHandlers ctor (s # ss) (a, e) = Inr ((s, ?c) # hs, a', e')"
    using c1 run by simp
  have nth': "\<forall>k<length (s # ss). ((s, ?c) # hs) ! k = ((s # ss) ! k, (?c + k) mod ?N)"
  proof (intro allI impI)
    fix k assume k: "k < length (s # ss)"
    show "((s, ?c) # hs) ! k = ((s # ss) ! k, (?c + k) mod ?N)"
    proof (cases k)
      case 0
      then show ?thesis using cN by simp
    next
      case (Suc k')
      with k have "k' < length ss" by simp
      with nth have "hs ! k' = (ss ! k', (unat (a_next a1) + k') mod length (a_reactors a1))"
        by blast
      then show ?thesis using Suc nx1 len1 shift by simp
    qed
  qed
  have "unat (a_next a') = (?c + length (s # ss)) mod ?N"
    using nx' nx1 len1 shift by simp
  with all lhs nth' inv' show ?case by auto
qed

lemma count_of_run:
  assumes "length hs = M" and "\<forall>k<M. snd (hs ! k) = k mod N"
  shows "length (filter (\<lambda>h. snd h = i) hs) = length (filter (\<lambda>k. k mod N = i) [0..<M])"
proof -
  have "map snd hs = map (\<lambda>k. k mod N) [0..<M]"
    using assms by (intro nth_equalityI) simp_all
  then have "length (filter (\<lambda>x. x = i) (map snd hs))
      = length (filter (\<lambda>x. x = i) (map (\<lambda>k. k mod N) [0..<M]))"
    by simp
  then show ?thesis by (simp add: filter_map comp_def)
qed

text \<open>
  Claim C1. Take an acceptor that satisfies the invariant, with a pool of \<open>N \<ge> 1\<close>
  reactors and \<open>_next = 0\<close> (as after construction), and \<open>M\<close> accepted sockets none of
  which is registered with a reactor of the pool when it is handled. Then every call of
  \<open>createServiceHandler\<close> succeeds, the \<open>k\<close>-th socket (from 0) is bound to the reactor of
  index \<open>k mod N\<close>, and each reactor receives \<open>M div N\<close> or \<open>(M + N - 1) div N\<close> sockets,
  that is the floor or the ceiling of \<open>M / N\<close>.
\<close>

theorem round_robin_distribution:
  assumes "invariant a" and "a_next a = 0" and "no_affinity ctor socks (a, e)"
  shows "\<exists>hs a' e'. createServiceHandlers ctor socks (a, e) = Inr (hs, a', e')
     \<and> length hs = length socks
     \<and> (\<forall>k<length socks. hs ! k = (socks ! k, k mod length (a_reactors a)))
     \<and> (\<forall>i<length (a_reactors a).
           length (filter (\<lambda>h. snd h = i) hs) = length socks div length (a_reactors a)
         \<or> length (filter (\<lambda>h. snd h = i) hs)
             = (length socks + length (a_reactors a) - 1) div length (a_reactors a))"
proof -
  let ?N = "length (a_reactors a)"
  let ?M = "length socks"
  from round_robin_run [OF assms(1,3)] assms(2)
  obtain hs a' e' where run: "createServiceHandlers ctor socks (a, e) = Inr (hs, a', e')"
    and len: "length hs = ?M"
    and nth: "\<forall>k<?M. hs ! k = (socks ! k, k mod ?N)"
    by auto
  from assms(1) have pos: "0 < ?N" by (simp add: invariant_def)
  from nth have snd: "\<forall>k<?M. snd (hs ! k) = k mod ?N" by simp
  have cnt: "length (filter (\<lambda>h. snd h = i) hs) = ?M div ?N + (if i < ?M mod ?N then 1 else 0)"
    if "i < ?N" for i
    using count_of_run [OF len snd, of i] count_mod [OF that, of ?M] by simp
  have "\<forall>i<?N. length (filter (\<lambda>h. snd h = i) hs) = ?M div ?N
         \<or> length (filter (\<lambda>h. snd h = i) hs) = (?M + ?N - 1) div ?N"
    using cnt floor_or_ceil [OF pos] by metis
  with run len nth show ?thesis by blast
qed

lemma no_affinity_sample: "no_affinity register_socket [10, 11, 12, 13] (pool3, env0)"
  by (simp add: createServiceHandler_def wakeUp_def Let_def reactor_for_def next_reactor_def pool3_def
      has_def ParallelReactor_def register_socket_def addEventHandler_def)

theorem round_robin_distribution_witness:
  "invariant pool3 \<and> a_next pool3 = 0
   \<and> no_affinity register_socket [10, 11, 12, 13] (pool3, env0)
   \<and> (\<exists>hs a' e'. createServiceHandlers register_socket [10, 11, 12, 13] (pool3, env0) = Inr (hs, a', e')
         \<and> length hs = 4
         \<and> hs ! 0 = (10, 0) \<and> hs ! 1 = (11, 1) \<and> hs ! 2 = (12, 2) \<and> hs ! 3 = (13, 0))"
proof -
  have nx: "a_next pool3 = 0" by (simp add: pool3_def)
  have N: "length (a_reactors pool3) = 3" by (simp add: pool3_def)
  from round_robin_distribution [OF invariant_pool3 nx no_affinity_sample]
  obtain hs a' e' where
    run: "createServiceHandlers register_socket [10, 11, 12, 13] (pool3, env0) = Inr (hs, a', e')"
    and len: "length hs = length [10::nat, 11, 12, 13]"
    and nth: "\<forall>k<length [10::nat, 11, 12, 13].
       hs ! k = ([10, 11, 12, 13] ! k, k mod length (a_reactors pool3))"
    by blast
  from nth have "hs ! 0 = (10, 0)" "hs ! 1 = (11, 1)" "hs ! 2 = (12, 2)" "hs ! 3 = (13, 0)"
    unfolding N by (simp_all add: nth_Cons')
  with run len invariant_pool3 nx no_affinity_sample show ?thesis by simp
qed


section \<open>Properties of the WebSocket handshake\<close>

lemma replicate_numeral: "replicate (numeral k) x = x # replicate (pred_numeral k) x"
  by (simp add: numeral_eq_Suc)

lemmas sha1_eval = sha1_def sha1_init_def sha1_pad_def to_bytes_def be64_def replicate_numeral
  chunks.simps schedule_def schedule_step_def rotl_def add32_def sha1_f_def sha1_k_def
  not32_def be32_def

lemma key_decodes:
  "base64_decode ''dGhlIHNhbXBsZSBub25jZQ=='' = Some (to_bytes ''the sample nonce'')"
  by (simp add: b64_value_def base64_alphabet_def to_bytes_def)

lemma sha1_example:
  "sha1 (to_bytes (''dGhlIHNhbXBsZSBub25jZQ=='' @ WEBSOCKET_GUID)) =
     [0xb3, 0x7a, 0x4f, 0x2c, 0xc0, 0x62, 0x4f, 0x16, 0x90, 0xf6,
      0x46, 0x06, 0xcf, 0x38, 0x59, 0x45, 0xb2, 0xbe, 0xc4, 0xea]"
  by (simp add: WEBSOCKET_GUID_def sha1_eval)

lemma computeAccept_example:
  "computeAccept ''dGhlIHNhbXBsZSBub25jZQ=='' = ''s3pPLMBiTxaQ9kYGzzhZRbK+xOo=''"
  unfolding computeAccept_def sha1_example by (simp add: b64_def base64_alphabet_def)

text \<open>
  Claim C7. The protocol GUID has 36 bytes, and the accept value computed from the key
  \<open>dGhlIHNhbXBsZSBub25jZQ==\<close>, the Base64 encoding of the SHA-1 digest of the key followed
  by the GUID, is \<open>s3pPLMBiTxaQ9kYGzzhZRbK+xOo=\<close>. A request that carries the Upgrade and
  Connection tokens, version 13 and a key that decodes to 16 bytes is answered (no
  credentials being supplied) with status 101, Switching Protocols, and the accept value
  of its key as \<open>Sec-WebSocket-Accept\<close>.
\<close>

theorem accept_rfc6455_example:
  "length WEBSOCKET_GUID = 36
   \<and> computeAccept ''dGhlIHNhbXBsZSBub25jZQ=='' = ''s3pPLMBiTxaQ9kYGzzhZRbK+xOo=''
   \<and> (has_token (req_headers req) ''Connection'' ''Upgrade''
        \<and> has_token (req_headers req) ''Upgrade'' ''websocket''
        \<and> get_header (req_headers req) ''Sec-WebSocket-Version'' = Some ''13''
        \<and> get_header (req_headers req) ''Sec-WebSocket-Key'' = Some key
        \<and> base64_decode key = Some bs \<and> length bs = 16
      \<longrightarrow> accept None req =
            Inr \<lparr>status = 101, reason = ''Switching Protocols'',
                 resp_headers = [(''Upgrade'', ''websocket''), (''Connection'', ''Upgrade''),
                                 (''Sec-WebSocket-Accept'', computeAccept key)]\<rparr>)"
proof (intro conjI impI)
  show "length WEBSOCKET_GUID = 36" by (simp add: WEBSOCKET_GUID_def)
  show "computeAccept ''dGhlIHNhbXBsZSBub25jZQ=='' = ''s3pPLMBiTxaQ9kYGzzhZRbK+xOo=''"
    by (rule computeAccept_example)
next
  assume "has_token (req_headers req) ''Connection'' ''Upgrade''
        \<and> has_token (req_headers req) ''Upgrade'' ''websocket''
        \<and> get_header (req_headers req) ''Sec-WebSocket-Version'' = Some ''13''
        \<and> get_header (req_headers req) ''Sec-WebSocket-Key'' = Some key
        \<and> base64_decode key = Some bs \<and> length bs = 16"
  then show "accept None req =
            Inr \<lparr>status = 101, reason = ''Switching Protocols'',
                 resp_headers = [(''Upgrade'', ''websocket''), (''Connection'', ''Upgrade''),
                                 (''Sec-WebSocket-Accept'', computeAccept key)]\<rparr>"
    by (simp add: accept_def WEBSOCKET_VERSION_def)
qed

lemma to_lower_simps:
  "map to_lower ''Connection'' = ''connection''"
  "map to_lower ''Upgrade'' = ''upgrade''"
  "map to_lower ''websocket'' = ''websocket''"
  "map to_lower ''Host'' = ''host''"
  "map to_lower ''Sec-WebSocket-Key'' = ''sec-websocket-key''"
  "map to_lower ''Sec-WebSocket-Version'' = ''sec-websocket-version''"
  "map to_lower ''Sec-WebSocket-Protocol'' = ''sec-websocket-protocol''"
  "map to_lower ''Sec-WebSocket-Accept'' = ''sec-websocket-accept''"
  "map to_lower ''Origin'' = ''origin''"
  by code_simp+

theorem accept_rfc6455_example_witness:
  "has_token (req_headers rfc6455_request) ''Connection'' ''Upgrade''
   \<and> has_token (req_headers rfc6455_request) ''Upgrade'' ''websocket''
   \<and> get_header (req_headers rfc6455_request) ''Sec-WebSocket-Version'' = Some ''13''
   \<and> get_header (req_headers rfc6455_request) ''Sec-WebSocket-Key'' = Some ''dGhlIHNhbXBsZSBub25jZQ==''
   \<and> base64_decode ''dGhlIHNhbXBsZSBub25jZQ=='' = Some (to_bytes ''the sample nonce'')
   \<and> (\<exists>resp. accept None rfc6455_request = Inr resp \<and> status resp = 101
         \<and> get_header (resp_headers resp) ''Sec-WebSocket-Accept'' = Some ''s3pPLMBiTxaQ9kYGzzhZRbK+xOo='')"
proof -
  have c: "has_token (req_headers rfc6455_request) ''Connection'' ''Upgrade''"
    and u: "has_token (req_headers rfc6455_request) ''Upgrade'' ''websocket''"
    and v: "get_header (req_headers rfc6455_request) ''Sec-WebSocket-Version'' = Some ''13''"
    and k: "get_header (req_headers rfc6455_request) ''Sec-WebSocket-Key'' = Some ''dGhlIHNhbXBsZSBub25jZQ==''"
    by (simp_all add: rfc6455_request_def has_token_def icompare_def to_lower_simps trim_def)
  have len: "length (to_bytes ''the sample nonce'') = 16" by (simp add: to_bytes_def)
  from accept_rfc6455_example [of rfc6455_request "''dGhlIHNhbXBsZSBub25jZQ==''"
      "to_bytes ''the sample nonce''"] c u v k key_decodes len
  have "accept None rfc6455_request =
            Inr \<lparr>status = 101, reason = ''Switching Protocols'',
                 resp_headers = [(''Upgrade'', ''websocket''), (''Connection'', ''Upgrade''),
                                 (''Sec-WebSocket-Accept'', ''s3pPLMBiTxaQ9kYGzzhZRbK+xOo='')]\<rparr>"
    by (simp del: base64_decode.simps)
  then have "\<exists>resp. accept None rfc6455_request = Inr resp \<and> status resp = 101
         \<and> get_header (resp_headers resp) ''Sec-WebSocket-Accept'' = Some ''s3pPLMBiTxaQ9kYGzzhZRbK+xOo=''"
    by (simp add: icompare_def to_lower_simps)
  with c u v k key_decodes show ?thesis by blast
qed

section \<open>Properties of the frame codec\<close>

lemmas frame_consts = FRAME_FLAG_FIN_def FRAME_FLAG_RSV1_def FRAME_FLAG_RSV2_def
  FRAME_FLAG_RSV3_def FRAME_OP_BITMASK_def FRAME_OP_CONT_def FRAME_OP_TEXT_def
  FRAME_OP_BINARY_def FRAME_OP_CLOSE_def FRAME_OP_PING_def FRAME_OP_PONG_def

text \<open>
  The three encodings of the payload length, and the header errors of the spec: a
  control frame with a 16-bit length or without \<open>FIN\<close>, a reserved bit, an undefined
  opcode, a payload above the limit.
\<close>

lemma encode_length_examples:
  "encode_length False 125 = [125]"
  "encode_length False 126 = [126, 0, 126]"
  "encode_length True 65535 = [0xFE, 0xFF, 0xFF]"
  "encode_length False 65536 = [127, 0, 0, 0, 0, 0, 1, 0, 0]"
  by (simp_all add: encode_length_def be_bytes_def upt_conv_Cons)

lemma parse_header_examples:
  "parse_header 100000 ([0x82, 126, 0x01, 0x00] @ rest) = Parsed (0x82, None, 256, 4)"
  "parse_header 100000 ([0x82, 127, 0, 0, 0, 0, 0, 1, 0, 0] @ rest) = Parsed (0x82, None, 65536, 10)"
  "parse_header 100000 ([0x89, 126] @ rest) = Failed ProtocolError"
  "parse_header 100000 ([0x09, 0] @ rest) = Failed ProtocolError"
  "parse_header 100000 ([0xC1, 0] @ rest) = Failed ProtocolError"
  "parse_header 100000 ([0x83, 0] @ rest) = Failed ProtocolError"
  "parse_header 10 ([0x82, 11] @ rest) = Failed PayloadTooBig"
  "parse_header 10 [0x82] = Incomplete"
  by (simp_all add: parse_header_def reserved_bits_def defined_opcode_def opcode_of_def
      is_control_def be_nat_def Let_def frame_consts)

lemma receiveFrame_empty_frame:
  assumes "recv_progress ws = []"
    and "reserved_bits b0 = 0" and "defined_opcode (opcode_of b0)"
    and "is_control (opcode_of b0) \<longrightarrow> b0 AND FRAME_FLAG_FIN \<noteq> 0"
  shows "receiveFrame ws buf fl ([b0, 0x00] @ rest) = Inr ((0, uint b0, buf), ws, rest)"
proof -
  have ws: "ws\<lparr>recv_progress := []\<rparr> = ws" using assms(1) by simp
  show ?thesis
    using assms by (simp add: receiveFrame_def parse_header_def Let_def ws)
qed

lemma receiveFrame_empty_masked_frame:
  assumes "recv_progress ws = []"
    and "reserved_bits b0 = 0" and "defined_opcode (opcode_of b0)"
    and "is_control (opcode_of b0) \<longrightarrow> b0 AND FRAME_FLAG_FIN \<noteq> 0"
    and "length k = 4"
  shows "receiveFrame ws buf fl ([b0, 0x80] @ k @ rest) = Inr ((0, uint b0, buf), ws, rest)"
proof -
  have ws: "ws\<lparr>recv_progress := []\<rparr> = ws" using assms(1) by simp
  show ?thesis
    using assms by (simp add: receiveFrame_def parse_header_def Let_def ws mask_payload_def)
qed

lemma flags_zero: "reserved_bits 0 = 0" "defined_opcode (opcode_of 0)" "\<not> is_control (opcode_of 0)"
  by (simp_all add: reserved_bits_def defined_opcode_def opcode_of_def is_control_def
      FRAME_OP_CONT_def FRAME_OP_CLOSE_def FRAME_OP_PING_def FRAME_OP_PONG_def)

lemma flags_ping:
  "FRAME_FLAG_FIN OR FRAME_OP_PING = 0x89"
  "reserved_bits 0x89 = 0" "defined_opcode (opcode_of 0x89)" "0x89 AND FRAME_FLAG_FIN \<noteq> 0"
  by (simp_all add: reserved_bits_def defined_opcode_def opcode_of_def
      FRAME_FLAG_FIN_def FRAME_FLAG_RSV1_def FRAME_FLAG_RSV2_def FRAME_FLAG_RSV3_def
      FRAME_OP_BITMASK_def FRAME_OP_CONT_def FRAME_OP_TEXT_def FRAME_OP_BINARY_def
      FRAME_OP_CLOSE_def FRAME_OP_PING_def FRAME_OP_PONG_def)

text \<open>
  Claim C9. With no frame under way, \<open>receiveFrame\<close> on a frame whose two header bytes
  are zero (no payload, no flag) returns 0 and sets the flags to 0; on an empty ping
  (\<open>FIN\<close> and \<open>FRAME_OP_PING\<close>, no payload) it returns 0 and sets the flags to \<open>0x89\<close>. In
  general, for an empty frame, masked or not, whose first byte \<open>b0\<close> has no reserved bit,
  a defined opcode and, for a control frame, the \<open>FIN\<close> bit, it returns 0 with the flags
  \<open>b0\<close>, which are 0 only when \<open>b0\<close> is; the buffer is left as it was and the bytes after
  the frame stay at the socket.
\<close>

theorem receiveFrame_zero_length:
  "recv_progress ws = [] \<longrightarrow>
     receiveFrame ws buf fl ([0x00, 0x00] @ rest) = Inr ((0, 0, buf), ws, rest)
   \<and> receiveFrame ws buf fl ([FRAME_FLAG_FIN OR FRAME_OP_PING, 0x00] @ rest)
       = Inr ((0, 0x89, buf), ws, rest)
   \<and> (reserved_bits b0 = 0 \<and> defined_opcode (opcode_of b0)
        \<and> (is_control (opcode_of b0) \<longrightarrow> b0 AND FRAME_FLAG_FIN \<noteq> 0) \<longrightarrow>
        receiveFrame ws buf fl ([b0, 0x00] @ rest) = Inr ((0, uint b0, buf), ws, rest)
        \<and> (\<forall>k. length k = 4 \<longrightarrow>
              receiveFrame ws buf fl ([b0, 0x80] @ k @ rest) = Inr ((0, uint b0, buf), ws, rest))
        \<and> (uint b0 = 0 \<longleftrightarrow> b0 = 0))"
proof (intro impI conjI allI)
  assume idle: "recv_progress ws = []"
  show "receiveFrame ws buf fl ([0x00, 0x00] @ rest) = Inr ((0, 0, buf), ws, rest)"
    using receiveFrame_empty_frame [OF idle flags_zero(1,2), of buf fl rest] flags_zero(3)
    by simp
  show "receiveFrame ws buf fl ([FRAME_FLAG_FIN OR FRAME_OP_PING, 0x00] @ rest)
       = Inr ((0, 0x89, buf), ws, rest)"
    using receiveFrame_empty_frame [OF idle flags_ping(2,3), of buf fl rest] flags_ping(1,4)
    by simp
next
  assume idle: "recv_progress ws = []"
    and ok: "reserved_bits b0 = 0 \<and> defined_opcode (opcode_of b0)
        \<and> (is_control (opcode_of b0) \<longrightarrow> b0 AND FRAME_FLAG_FIN \<noteq> 0)"
  show "receiveFrame ws buf fl ([b0, 0x00] @ rest) = Inr ((0, uint b0, buf), ws, rest)"
    using receiveFrame_empty_frame [OF idle, of b0 buf fl rest] ok by blast
  show "uint b0 = 0 \<longleftrightarrow> b0 = 0"
    by (simp add: uint_0_iff)
  fix k :: "byte list" assume "length k = 4"
  then show "receiveFrame ws buf fl ([b0, 0x80] @ k @ rest) = Inr ((0, uint b0, buf), ws, rest)"
    using receiveFrame_empty_masked_frame [OF idle, of b0 k buf fl rest] ok by blast
qed

theorem receiveFrame_zero_length_witness:
  "recv_progress idle_server = []
   \<and> receiveFrame idle_server [1, 2, 3] 7 [0x00, 0x00] = Inr ((0, 0, [1, 2, 3]), idle_server, [])
   \<and> receiveFrame idle_server [1, 2, 3] 7 [0x89, 0x00] = Inr ((0, 0x89, [1, 2, 3]), idle_server, [])
   \<and> receiveFrame idle_server [1, 2, 3] 7 [0x89, 0x80, 0x0a, 0x0b, 0x0c, 0x0d, 0x81]
       = Inr ((0, 0x89, [1, 2, 3]), idle_server, [0x81])"
proof -
  have idle: "recv_progress idle_server = []" by (simp add: idle_server_def)
  have k: "length [0x0a, 0x0b, 0x0c, 0x0d :: byte] = 4" by simp
  from receiveFrame_zero_length [of idle_server "[1, 2, 3]" 7 "[]" "0x89"] idle flags_ping
  have a: "receiveFrame idle_server [1, 2, 3] 7 [0x00, 0x00] = Inr ((0, 0, [1, 2, 3]), idle_server, [])"
    and b: "receiveFrame idle_server [1, 2, 3] 7 [0x89, 0x00] = Inr ((0, 0x89, [1, 2, 3]), idle_server, [])"
    by simp_all
  from receiveFrame_zero_length [of idle_server "[1, 2, 3]" 7 "[0x81]" "0x89"] idle flags_ping
  have "\<forall>k. length k = 4 \<longrightarrow>
      receiveFrame idle_server [1, 2, 3] 7 ([0x89, 0x80] @ k @ [0x81])
        = Inr ((0, uint (0x89 :: byte), [1, 2, 3]), idle_server, [0x81])"
    by blast
  from this [rule_format, OF k]
  have c: "receiveFrame idle_server [1, 2, 3] 7 ([0x89, 0x80] @ [0x0a, 0x0b, 0x0c, 0x0d] @ [0x81])
       = Inr ((0, 0x89, [1, 2, 3]), idle_server, [0x81])"
    by simp
  from idle a b c show ?thesis by simp
qed

lemma length_mask_payload: "length (mask_payload k payload) = length payload"
  by (simp add: mask_payload_def)

lemma length_encode_frame:
  "length (encode_frame flags key payload)
     = length (encode_header flags key (length payload)) + length payload"
  by (simp add: encode_frame_def length_mask_payload split: option.splits)

lemma encode_frame_nonempty: "0 < length (encode_frame flags key payload)"
  by (simp add: encode_frame_def encode_header_def split: option.splits)

lemma sendFrame_partial:
  assumes "\<not> blocking ws" and "frame_in_progress ws rnd = (key, sent)"
    and "cap < length (encode_frame flags key payload) - sent"
  shows "sendFrame ws payload flags rnd cap =
     (- 1, ws\<lparr>wire := wire ws @ take cap (drop sent (encode_frame flags key payload)),
               send_progress := Some (key, sent + cap)\<rparr>)"
  using assms by (simp add: sendFrame_def Let_def min_def)

lemma sendFrame_complete:
  assumes "\<not> blocking ws" and "frame_in_progress ws rnd = (key, sent)"
    and "length (encode_frame flags key payload) - sent \<le> cap"
  shows "sendFrame ws payload flags rnd cap =
     (int (length payload),
      ws\<lparr>wire := wire ws @ drop sent (encode_frame flags key payload), send_progress := None\<rparr>)"
  using assms by (simp add: sendFrame_def Let_def min_def)

lemma sendFrame_retry_run:
  assumes "\<not> blocking ws"
    and "env \<noteq> [] \<longrightarrow> frame_in_progress ws (fst (hd env)) = (key, sent)"
    and "sent < length (encode_frame flags key payload)"
    and "length (encode_frame flags key payload) - sent \<le> sum_list (map snd env)"
  shows "\<exists>k. sendFrame_retry ws payload flags env
         = (replicate k (- 1) @ [int (length payload)],
            ws\<lparr>wire := wire ws @ drop sent (encode_frame flags key payload),
               send_progress := None\<rparr>)
     \<and> k < length env
     \<and> ((\<forall>c\<in>set (map snd env). c = 1) \<longrightarrow>
           k + 1 = length (encode_frame flags key payload) - sent)"
  using assms
proof (induction env arbitrary: ws sent)
  case Nil
  then show ?case by simp
next
  case (Cons rc env)
  obtain rnd cap where rc: "rc = (rnd, cap)" by (cases rc)
  let ?frame = "encode_frame flags key payload"
  from Cons.prems(2) rc have fip: "frame_in_progress ws rnd = (key, sent)" by simp
  show ?case
  proof (cases "length ?frame - sent \<le> cap")
    case True
    from sendFrame_complete [OF Cons.prems(1) fip True]
    have "sendFrame_retry ws payload flags (rc # env) =
        ([int (length payload)], ws\<lparr>wire := wire ws @ drop sent ?frame, send_progress := None\<rparr>)"
      by (simp add: rc)
    moreover have "(\<forall>c\<in>set (map snd (rc # env)). c = 1) \<longrightarrow> 0 + 1 = length ?frame - sent"
      using True Cons.prems(3) rc by auto
    ultimately show ?thesis
      by (intro exI [of _ 0]) simp
  next
    case False
    then have lt: "cap < length ?frame - sent" by simp
    let ?ws1 = "ws\<lparr>wire := wire ws @ take cap (drop sent ?frame),
                    send_progress := Some (key, sent + cap)\<rparr>"
    from sendFrame_partial [OF Cons.prems(1) fip lt]
    have step: "sendFrame ws payload flags rnd cap = (- 1, ?ws1)" .
    have nb: "\<not> blocking ?ws1" using Cons.prems(1) by simp
    have fip1: "env \<noteq> [] \<longrightarrow> frame_in_progress ?ws1 (fst (hd env)) = (key, sent + cap)"
      by (simp add: frame_in_progress_def)
    have lt1: "sent + cap < length ?frame" using lt by simp
    have sum1: "length ?frame - (sent + cap) \<le> sum_list (map snd env)"
      using Cons.prems(4) rc by simp
    from Cons.IH [OF nb fip1 lt1 sum1] obtain k where
      run: "sendFrame_retry ?ws1 payload flags env
          = (replicate k (- 1) @ [int (length payload)],
             ?ws1\<lparr>wire := wire ?ws1 @ drop (sent + cap) ?frame, send_progress := None\<rparr>)"
      and k: "k < length env"
      and ones: "(\<forall>c\<in>set (map snd env). c = 1) \<longrightarrow> k + 1 = length ?frame - (sent + cap)"
      by blast
    have join: "take cap (drop sent ?frame) @ drop (sent + cap) ?frame = drop sent ?frame"
      by (metis add.commute append_take_drop_id drop_drop)
    have "sendFrame_retry ws payload flags (rc # env)
        = (replicate (Suc k) (- 1) @ [int (length payload)],
           ws\<lparr>wire := wire ws @ drop sent ?frame, send_progress := None\<rparr>)"
      using step run join by (simp add: rc)
    moreover have "(\<forall>c\<in>set (map snd (rc # env)). c = 1) \<longrightarrow> Suc k + 1 = length ?frame - sent"
      using ones lt rc by auto
    ultimately show ?thesis
      using k by (intro exI [of _ "Suc k"]) simp
  qed
qed


text \<open>
  Claim C8. On a non-blocking connection with no frame under way, let \<open>frame\<close> be the
  encoded frame (header, then payload, masked with the key drawn at the first call for a
  client). A call at which the socket accepts fewer bytes than the frame has returns -1
  and keeps the key and the number of bytes written. When the calls are repeated with the
  same buffer and flags, and the socket accepts at least the length of the frame in
  total, all calls but the last return -1, the last one returns the payload length, no
  frame is under way afterwards, and what was written to the socket is exactly \<open>frame\<close>,
  once: header length plus payload length bytes. With one byte accepted at each call the
  number of calls is the length of the frame.
\<close>

theorem sendFrame_resumes_frame:
  assumes "\<not> blocking ws" and "send_progress ws = None"
    and "key = (if ws_mode ws = WS_CLIENT then Some (key_bytes rnd) else None)"
    and "frame = encode_frame flags key payload"
  shows "(cap < length frame \<longrightarrow>
            sendFrame ws payload flags rnd cap
              = (- 1, ws\<lparr>wire := wire ws @ take cap frame, send_progress := Some (key, cap)\<rparr>))
     \<and> (length frame \<le> cap + sum_list (map snd env) \<longrightarrow>
          (\<exists>k. sendFrame_retry ws payload flags ((rnd, cap) # env)
                 = (replicate k (- 1) @ [int (length payload)], ws\<lparr>wire := wire ws @ frame\<rparr>)
             \<and> k \<le> length env
             \<and> (cap = 1 \<and> (\<forall>c\<in>set (map snd env). c = 1) \<longrightarrow> k + 1 = length frame)))
     \<and> length frame = length (encode_header flags key (length payload)) + length payload"
proof (intro conjI impI)
  have fip: "frame_in_progress ws rnd = (key, 0)"
    using assms(2,3) by (simp add: frame_in_progress_def)
  {
    assume "cap < length frame"
    then have "cap < length (encode_frame flags key payload) - 0" using assms(4) by simp
    from sendFrame_partial [OF assms(1) fip this]
    show "sendFrame ws payload flags rnd cap
              = (- 1, ws\<lparr>wire := wire ws @ take cap frame, send_progress := Some (key, cap)\<rparr>)"
      using assms(4) by simp
  }
  {
    assume sum: "length frame \<le> cap + sum_list (map snd env)"
    have h2: "(rnd, cap) # env \<noteq> [] \<longrightarrow>
        frame_in_progress ws (fst (hd ((rnd, cap) # env))) = (key, 0)"
      using fip by simp
    have h3: "0 < length (encode_frame flags key payload)" by (rule encode_frame_nonempty)
    have h4: "length (encode_frame flags key payload) - 0 \<le> sum_list (map snd ((rnd, cap) # env))"
      using sum assms(4) by simp
    from sendFrame_retry_run [OF assms(1) h2 h3 h4] obtain k where
      run: "sendFrame_retry ws payload flags ((rnd, cap) # env)
          = (replicate k (- 1) @ [int (length payload)],
             ws\<lparr>wire := wire ws @ drop 0 (encode_frame flags key payload), send_progress := None\<rparr>)"
      and k: "k < length ((rnd, cap) # env)"
      and ones: "(\<forall>c\<in>set (map snd ((rnd, cap) # env)). c = 1) \<longrightarrow>
           k + 1 = length (encode_frame flags key payload) - 0"
      by blast
    have same: "ws\<lparr>wire := wire ws @ frame, send_progress := None\<rparr> = ws\<lparr>wire := wire ws @ frame\<rparr>"
      using assms(2) by simp
    show "\<exists>k. sendFrame_retry ws payload flags ((rnd, cap) # env)
                 = (replicate k (- 1) @ [int (length payload)], ws\<lparr>wire := wire ws @ frame\<rparr>)
             \<and> k \<le> length env
             \<and> (cap = 1 \<and> (\<forall>c\<in>set (map snd env). c = 1) \<longrightarrow> k + 1 = length frame)"
      using run k ones same assms(4) by (intro exI [of _ k]) auto
  }
  show "length frame = length (encode_header flags key (length payload)) + length payload"
    using assms(4) by (simp add: length_encode_frame)
qed

theorem sendFrame_resumes_frame_witness:
  "\<not> blocking idle_server \<and> send_progress idle_server = None
   \<and> encode_frame FRAME_TEXT None [0x48, 0x69] = [0x81, 0x02, 0x48, 0x69]
   \<and> sendFrame idle_server [0x48, 0x69] FRAME_TEXT 0 1
       = (- 1, idle_server\<lparr>wire := [0x81], send_progress := Some (None, 1)\<rparr>)
   \<and> sendFrame_retry idle_server [0x48, 0x69] FRAME_TEXT [(0, 1), (0, 1), (0, 1), (0, 1)]
       = ([- 1, - 1, - 1, 2], idle_server\<lparr>wire := [0x81, 0x02, 0x48, 0x69]\<rparr>)"
proof -
  have nb: "\<not> blocking idle_server" and idle: "send_progress idle_server = None"
    and key: "None = (if ws_mode idle_server = WS_CLIENT then Some (key_bytes 0) else None)"
    and w: "wire idle_server = []"
    by (simp_all add: idle_server_def)
  have frame: "[0x81, 0x02, 0x48, 0x69] = encode_frame FRAME_TEXT None [0x48, 0x69]"
    by (simp add: encode_frame_def encode_header_def encode_length_def FRAME_TEXT_def
        FRAME_FLAG_FIN_def FRAME_OP_TEXT_def)
  note res = sendFrame_resumes_frame [OF nb idle key frame, of 1 "[(0, 1), (0, 1), (0, 1)]"]
  from res have one: "sendFrame idle_server [0x48, 0x69] FRAME_TEXT 0 1
       = (- 1, idle_server\<lparr>wire := [0x81], send_progress := Some (None, 1)\<rparr>)"
    by (simp add: w)
  from res obtain k where
    run: "sendFrame_retry idle_server [0x48, 0x69] FRAME_TEXT ((0, 1) # [(0, 1), (0, 1), (0, 1)])
       = (replicate k (- 1) @ [int (length [0x48 :: byte, 0x69])],
          idle_server\<lparr>wire := wire idle_server @ [0x81, 0x02, 0x48, 0x69]\<rparr>)"
    and k: "k + 1 = length [0x81 :: byte, 0x02, 0x48, 0x69]"
    by auto
  from k have "k = 3" by simp
  with run have all: "sendFrame_retry idle_server [0x48, 0x69] FRAME_TEXT [(0, 1), (0, 1), (0, 1), (0, 1)]
       = ([- 1, - 1, - 1, 2], idle_server\<lparr>wire := [0x81, 0x02, 0x48, 0x69]\<rparr>)"
    by (simp add: w numeral_3_eq_3)
  from nb idle frame one all show ?thesis by simp
qed

text \<open>The masked text frame of RFC 6455, section 5.7, encoded and received.\<close>

lemma encode_frame_rfc6455_masked:
  "encode_frame FRAME_TEXT (Some (key_bytes 0x37fa213d)) [0x48, 0x65, 0x6c, 0x6c, 0x6f]
     = [0x81, 0x85, 0x37, 0xfa, 0x21, 0x3d, 0x7f, 0x9f, 0x4d, 0x51, 0x58]"
  by (simp add: encode_frame_def encode_header_def encode_length_def FRAME_TEXT_def
      FRAME_FLAG_FIN_def FRAME_OP_TEXT_def key_bytes_def mask_payload_def upt_conv_Cons)

lemma receiveFrame_rfc6455_masked:
  "receiveFrame idle_server [0, 0, 0, 0, 0, 0, 0, 0] 0
     [0x81, 0x85, 0x37, 0xfa, 0x21, 0x3d, 0x7f, 0x9f, 0x4d, 0x51, 0x58]
     = Inr ((5, 0x81, [0x48, 0x65, 0x6c, 0x6c, 0x6f, 0, 0, 0]), idle_server, [])"
  by (simp add: receiveFrame_def parse_header_def idle_server_def reserved_bits_def
      defined_opcode_def opcode_of_def is_control_def mask_payload_def upt_conv_Cons Let_def
      FRAME_FLAG_FIN_def FRAME_FLAG_RSV1_def FRAME_FLAG_RSV2_def FRAME_FLAG_RSV3_def
      FRAME_OP_BITMASK_def FRAME_OP_CONT_def FRAME_OP_TEXT_def FRAME_OP_BINARY_def
      FRAME_OP_CLOSE_def FRAME_OP_PING_def FRAME_OP_PONG_def)

section \<open>Properties of the conversion from a generic socket\<close>

text \<open>
  Claim C10. Constructing a WebSocket from a socket, and assigning a socket to a
  WebSocket, succeed exactly when the implementation object of the source is a
  \<open>WebSocketImpl\<close>, and then the WebSocket shares that object; in every other case both
  throw \<open>InvalidArgumentException\<close>.
\<close>

theorem WebSocket_from_generic_socket:
  "(if h (impl s) = WebSocketImpl
    then WebSocket_from_Socket h s = Inr \<lparr>impl = impl s\<rparr>
       \<and> WebSocket_assign h this s = Inr (this\<lparr>impl := impl s\<rparr>)
    else WebSocket_from_Socket h s = Inl InvalidArgumentException
       \<and> WebSocket_assign h this s = Inl InvalidArgumentException)
   \<and> ((\<exists>w. WebSocket_from_Socket h s = Inr w) \<longleftrightarrow> h (impl s) = WebSocketImpl)
   \<and> ((\<exists>w. WebSocket_assign h this s = Inr w) \<longleftrightarrow> h (impl s) = WebSocketImpl)"
  by (simp add: WebSocket_from_Socket_def WebSocket_assign_def)

theorem WebSocket_from_generic_socket_witness:
  "WebSocket_from_Socket sample_heap \<lparr>impl = 10\<rparr> = Inr \<lparr>impl = 10\<rparr>
   \<and> WebSocket_assign sample_heap \<lparr>impl = 50\<rparr> \<lparr>impl = 10\<rparr> = Inr \<lparr>impl = 10\<rparr>
   \<and> WebSocket_from_Socket sample_heap \<lparr>impl = 20\<rparr> = Inl InvalidArgumentException
   \<and> WebSocket_assign sample_heap \<lparr>impl = 10\<rparr> \<lparr>impl = 30\<rparr> = Inl InvalidArgumentException"
proof -
  have h: "sample_heap 10 = WebSocketImpl" "sample_heap 20 = ServerSocketImpl"
    "sample_heap 30 = StreamSocketImpl"
    by (simp_all add: sample_heap_def)
  show ?thesis
    using WebSocket_from_generic_socket [of sample_heap "\<lparr>impl = 10\<rparr>" "\<lparr>impl = 50\<rparr>"]
      WebSocket_from_generic_socket [of sample_heap "\<lparr>impl = 20\<rparr>" "\<lparr>impl = 10\<rparr>"]
      WebSocket_from_generic_socket [of sample_heap "\<lparr>impl = 30\<rparr>" "\<lparr>impl = 10\<rparr>"]
    by (simp add: h)
qed

end
